theory Spec2Isabelle
  imports Complex_Main "HOL-Library.FSet"
begin

section \<open>ip\_utils.py: bounded collections\<close>

subsection \<open>Python dictionaries in insertion order\<close>

text \<open>
  A Python \<open>dict\<close> iterates in insertion order, and \<open>sorted\<close> is stable, so the order of
  the entries decides which of several equally frequent keys is evicted.  A dictionary is
  therefore an association list in insertion order; its keys are pairwise distinct.
  Assigning to a key that is present keeps its position, assigning to a new key appends.
\<close>

type_synonym ('k, 'v) dict = "('k \<times> 'v) list"

definition dict_get :: "('k, 'v) dict \<Rightarrow> 'k \<Rightarrow> 'v \<Rightarrow> 'v" where
  "dict_get d k dflt = (case map_of d k of None \<Rightarrow> dflt | Some v \<Rightarrow> v)"

fun dict_set :: "('k, 'v) dict \<Rightarrow> 'k \<Rightarrow> 'v \<Rightarrow> ('k, 'v) dict" where
  "dict_set [] k v = [(k, v)]"
| "dict_set ((k', v') # d) k v =
     (if k' = k then (k', v) # d else (k', v') # dict_set d k v)"

definition dict_del :: "('k, 'v) dict \<Rightarrow> 'k \<Rightarrow> ('k, 'v) dict" where
  "dict_del d k = filter (\<lambda>kv. fst kv \<noteq> k) d"

definition dict_keys :: "('k, 'v) dict \<Rightarrow> 'k list" where
  "dict_keys d = map fst d"

subsection \<open>BoundedCounter\<close>

record 'k BoundedCounter =
  bc_data :: "('k, int) dict"
  bc_maxsize :: int

definition BoundedCounter_init :: "int \<Rightarrow> 'k BoundedCounter" where
  "BoundedCounter_init maxsize = \<lparr>bc_data = [], bc_maxsize = maxsize\<rparr>"

text \<open>
  \<open>_maybe_evict\<close>: when the dictionary holds more than \<open>maxsize\<close> keys, the keys are sorted
  by their count (stable, ascending) and the first \<open>max(1, maxsize // 10)\<close> of them are
  deleted.  Python's \<open>//\<close> rounds towards minus infinity, as \<open>div\<close> on \<open>int\<close> does; the slice
  bound is at least 1, so the slice is a prefix.
\<close>

definition maybe_evict :: "'k BoundedCounter \<Rightarrow> 'k BoundedCounter" where
  "maybe_evict c =
     (if int (length (bc_data c)) > bc_maxsize c then
        (let evict_count = max 1 (bc_maxsize c div 10);
             sorted_keys = sort_key (\<lambda>k. dict_get (bc_data c) k 0) (dict_keys (bc_data c))
         in c\<lparr>bc_data := foldl dict_del (bc_data c) (take (nat evict_count) sorted_keys)\<rparr>)
      else c)"

text \<open>\<open>increment\<close> returns the count it stored, read before the eviction runs.\<close>

definition increment :: "'k BoundedCounter \<Rightarrow> 'k \<Rightarrow> int \<times> 'k BoundedCounter" where
  "increment c key =
     (let d = dict_set (bc_data c) key (dict_get (bc_data c) key 0 + 1);
          count = dict_get d key 0
      in (count, maybe_evict (c\<lparr>bc_data := d\<rparr>)))"

definition bc_get :: "'k BoundedCounter \<Rightarrow> 'k \<Rightarrow> int" where
  "bc_get c key = dict_get (bc_data c) key 0"

definition bc_len :: "'k BoundedCounter \<Rightarrow> int" where
  "bc_len c = int (length (bc_data c))"



text \<open>Feeding a list of keys, one increment each.\<close>

definition increments :: "'k BoundedCounter \<Rightarrow> 'k list \<Rightarrow> 'k BoundedCounter" where
  "increments c ks = foldl (\<lambda>c k. snd (increment c k)) c ks"

subsection \<open>BoundedSet\<close>

record 'a BoundedSet =
  bs_data :: "'a fset"
  bs_maxsize :: int
  bs_overflow_count :: int

definition BoundedSet_init :: "int \<Rightarrow> 'a BoundedSet" where
  "BoundedSet_init maxsize = \<lparr>bs_data = {||}, bs_maxsize = maxsize, bs_overflow_count = 0\<rparr>"

definition add :: "'a BoundedSet \<Rightarrow> 'a \<Rightarrow> 'a BoundedSet" where
  "add s item =
     (if item |\<in>| bs_data s then s
      else if int (fcard (bs_data s)) < bs_maxsize s
        then s\<lparr>bs_data := finsert item (bs_data s)\<rparr>
        else s\<lparr>bs_overflow_count := bs_overflow_count s + 1\<rparr>)"

definition bs_len :: "'a BoundedSet \<Rightarrow> int" where
  "bs_len s = int (fcard (bs_data s))"

definition total_seen :: "'a BoundedSet \<Rightarrow> int" where
  "total_seen s = int (fcard (bs_data s)) + bs_overflow_count s"

definition bs_contains :: "'a BoundedSet \<Rightarrow> 'a \<Rightarrow> bool" where
  "bs_contains s item \<longleftrightarrow> item |\<in>| bs_data s"

definition adds :: "'a BoundedSet \<Rightarrow> 'a list \<Rightarrow> 'a BoundedSet" where
  "adds s xs = foldl add s xs"

section \<open>dashboard\_config.py: configuration\<close>

text \<open>
  Every limit is read from the environment with \<open>int(...)\<close> or \<open>float(...)\<close>.  The
  \<open>maxlen\<close> of a \<open>deque\<close> is a natural number (Python raises \<open>ValueError\<close> when it is
  negative, before the monitor exists); the capacities of the bounded counters and sets
  and the queue size are integers.
\<close>

record cfg =
  MAX_MAP_MARKERS :: nat
  MAX_RECENT_ATTACKS :: nat
  MAX_TIMELINE_ENTRIES :: nat
  MAX_ALERTS :: nat
  MAX_UNIQUE_IPS :: int
  MAX_UNIQUE_PASSWORDS :: int
  MAX_UNIQUE_USERS :: int
  MAX_TOP_ENTRIES :: int
  STATS_CACHE_TTL :: real
  ENRICHMENT_QUEUE_SIZE :: int

definition default_cfg :: cfg where
  "default_cfg = \<lparr>MAX_MAP_MARKERS = 1000, MAX_RECENT_ATTACKS = 100, MAX_TIMELINE_ENTRIES = 50,
     MAX_ALERTS = 50, MAX_UNIQUE_IPS = 50000, MAX_UNIQUE_PASSWORDS = 20000,
     MAX_UNIQUE_USERS = 10000, MAX_TOP_ENTRIES = 10000, STATS_CACHE_TTL = 2,
     ENRICHMENT_QUEUE_SIZE = 1000\<rparr>"

section \<open>cowrie\_dashboard.py: the monitor\<close>

subsection \<open>Log entries\<close>

text \<open>
  A log entry is the dictionary decoded from one JSON line.  The model keeps the keys the
  monitor reads, each with the type cowrie and the two enrichment services give it; a key
  that is absent is \<open>None\<close>.  A string is the list of its characters, so \<open>length\<close> is
  Python's \<open>len\<close>.  The nested dictionaries \<open>geo_location\<close> and \<open>asn_info\<close> hold only
  the keys listed here.
\<close>

record geo =
  country :: "string option"
  city :: "string option"
  latitude :: "real option"
  longitude :: "real option"

record asn_rec =
  organization :: "string option"
  asn :: "string option"

record entry =
  eventid :: "string option"
  src_ip :: "string option"
  timestamp :: "string option"
  username :: "string option"
  password :: "string option"
  input :: "string option"
  geo_location :: "geo option"
  asn_info :: "asn_rec option"

text \<open>Python truth values: \<open>None\<close>, the empty string, zero and the empty dictionary are false.\<close>

definition truthy_str :: "string option \<Rightarrow> bool" where
  "truthy_str v = (case v of None \<Rightarrow> False | Some s \<Rightarrow> s \<noteq> [])"

definition truthy_num :: "real option \<Rightarrow> bool" where
  "truthy_num v = (case v of None \<Rightarrow> False | Some x \<Rightarrow> x \<noteq> 0)"

definition truthy_geo :: "geo option \<Rightarrow> bool" where
  "truthy_geo v = (case v of None \<Rightarrow> False
     | Some g \<Rightarrow> country g \<noteq> None \<or> city g \<noteq> None \<or> latitude g \<noteq> None \<or> longitude g \<noteq> None)"

definition truthy_asn :: "asn_rec option \<Rightarrow> bool" where
  "truthy_asn v = (case v of None \<Rightarrow> False | Some a \<Rightarrow> organization a \<noteq> None \<or> asn a \<noteq> None)"

text \<open>\<open>entry.get('geo_location', {}).get(key, default)\<close> and its \<open>asn_info\<close> sibling.\<close>

definition geo_country_or :: "entry \<Rightarrow> string \<Rightarrow> string" where
  "geo_country_or e dflt = (case geo_location e of None \<Rightarrow> dflt
     | Some g \<Rightarrow> (case country g of None \<Rightarrow> dflt | Some c \<Rightarrow> c))"

definition geo_latitude :: "entry \<Rightarrow> real option" where
  "geo_latitude e = (case geo_location e of None \<Rightarrow> None | Some g \<Rightarrow> latitude g)"

definition geo_longitude :: "entry \<Rightarrow> real option" where
  "geo_longitude e = (case geo_location e of None \<Rightarrow> None | Some g \<Rightarrow> longitude g)"

definition asn_organization :: "entry \<Rightarrow> string option" where
  "asn_organization e = (case asn_info e of None \<Rightarrow> None | Some a \<Rightarrow> organization a)"

definition asn_organization_or :: "entry \<Rightarrow> string \<Rightarrow> string" where
  "asn_organization_or e dflt = (case asn_organization e of None \<Rightarrow> dflt | Some s \<Rightarrow> s)"

definition asn_number :: "entry \<Rightarrow> string option" where
  "asn_number e = (case asn_info e of None \<Rightarrow> None | Some a \<Rightarrow> asn a)"

definition asn_number_or :: "entry \<Rightarrow> string \<Rightarrow> string" where
  "asn_number_or e dflt = (case asn_number e of None \<Rightarrow> dflt | Some s \<Rightarrow> s)"

subsection \<open>Bounded histories and the enrichment queue\<close>

text \<open>
  \<open>collections.deque(maxlen=n)\<close>: appending to a full deque drops the oldest item; with
  \<open>n = 0\<close> the deque stays empty.
\<close>

record 'a deque =
  dq_items :: "'a list"
  dq_maxlen :: nat

definition deque_init :: "nat \<Rightarrow> 'a deque" where
  "deque_init n = \<lparr>dq_items = [], dq_maxlen = n\<rparr>"

definition deque_append :: "'a deque \<Rightarrow> 'a \<Rightarrow> 'a deque" where
  "deque_append q x =
     (let ys = dq_items q @ [x] in q\<lparr>dq_items := drop (length ys - dq_maxlen q) ys\<rparr>)"

text \<open>
  \<open>queue.Queue(maxsize)\<close>: \<open>put_nowait\<close> raises \<open>Full\<close> when \<open>maxsize\<close> is positive and
  that many items wait; the caller catches it and drops the item.  A \<open>maxsize\<close> of zero
  or less means no bound.
\<close>

record 'a py_queue =
  q_items :: "'a list"
  q_maxsize :: int

definition queue_init :: "int \<Rightarrow> 'a py_queue" where
  "queue_init n = \<lparr>q_items = [], q_maxsize = n\<rparr>"

definition put_nowait :: "'a py_queue \<Rightarrow> 'a \<Rightarrow> 'a py_queue option" where
  "put_nowait q x =
     (if 0 < q_maxsize q \<and> q_maxsize q \<le> int (length (q_items q)) then None
      else Some (q\<lparr>q_items := q_items q @ [x]\<rparr>))"

subsection \<open>The aggregate\<close>

record attack =
  ra_timestamp :: "string option"
  ra_ip :: "string option"
  ra_event :: string
  ra_country :: string
  ra_organization :: string
  ra_latitude :: "real option"
  ra_longitude :: "real option"
  ra_username :: "string option"
  ra_password :: "string option"

record timeline_item =
  tl_timestamp :: "string option"
  tl_event :: "string option"
  tl_ip :: "string option"
  tl_country :: string
  tl_organization :: string
  tl_username :: "string option"

record marker =
  mk_lat :: real
  mk_lng :: real
  mk_ip :: "string option"
  mk_country :: string
  mk_city :: "string option"
  mk_timestamp :: "string option"
  mk_event :: "string option"
  mk_username :: "string option"
  mk_organization :: string
  mk_asn :: string

record heatpoint =
  hp_lat :: real
  hp_lng :: real
  hp_intensity :: int

record alert =
  al_timestamp :: string
  al_level :: string
  al_message :: string
  al_ip :: "string option"
  al_country :: string
  al_organization :: string

record summary =
  s_total_connections :: int
  s_failed_logins :: int
  s_successful_logins :: int
  s_commands_executed :: int
  s_unique_ips :: int
  s_unique_passwords :: int
  s_unique_users :: int
  s_success_rate :: real
  s_top_ips :: "(string option, int) dict"
  s_top_passwords :: "(string, int) dict"
  s_top_users :: "(string, int) dict"
  s_top_commands :: "(string, int) dict"
  s_top_countries :: "(string, int) dict"
  s_top_organizations :: "(string, int) dict"
  s_top_asns :: "(string, int) dict"
  s_recent_attacks :: "attack list"
  s_markers :: "marker list"
  s_heatpoints :: "heatpoint list"
  s_alerts :: "alert list"

text \<open>
  The state of a \<open>CowrieMonitor\<close>: the \<open>stats\<close> dictionary field by field, the alert
  history with the three sets of keys already alerted, the tail position, the summary
  cache and the enrichment queue.  \<open>src_ip\<close> is read with \<open>entry.get('src_ip')\<close> when the
  statistics are updated, so an absent address is the key \<open>None\<close> of \<open>unique_ips\<close> and
  \<open>top_ips\<close>.
\<close>

record monitor =
  total_connections :: int
  failed_logins :: int
  successful_logins :: int
  commands_executed :: int
  unique_ips :: "string option BoundedSet"
  unique_passwords :: "string BoundedSet"
  unique_users :: "string BoundedSet"
  recent_attacks :: "attack deque"
  top_ips :: "string option BoundedCounter"
  top_passwords :: "string BoundedCounter"
  top_users :: "string BoundedCounter"
  top_commands :: "string BoundedCounter"
  attack_timeline :: "timeline_item deque"
  countries :: "string BoundedCounter"
  organizations :: "string BoundedCounter"
  asns :: "string BoundedCounter"
  markers :: "marker deque"
  heatpoints :: "heatpoint deque"
  alerts :: "alert deque"
  alerted_ips :: "string BoundedSet"
  alerted_countries :: "string BoundedSet"
  alerted_orgs :: "string BoundedSet"
  running :: bool
  last_position :: nat
  last_inode :: "nat option"
  stats_cache :: "summary option"
  stats_cache_time :: real
  stats_dirty :: bool
  enrich_queue :: "entry py_queue"

definition CowrieMonitor_init :: "cfg \<Rightarrow> monitor" where
  "CowrieMonitor_init c = \<lparr>
     total_connections = 0, failed_logins = 0, successful_logins = 0, commands_executed = 0,
     unique_ips = BoundedSet_init (MAX_UNIQUE_IPS c),
     unique_passwords = BoundedSet_init (MAX_UNIQUE_PASSWORDS c),
     unique_users = BoundedSet_init (MAX_UNIQUE_USERS c),
     recent_attacks = deque_init (MAX_RECENT_ATTACKS c),
     top_ips = BoundedCounter_init (MAX_TOP_ENTRIES c),
     top_passwords = BoundedCounter_init (MAX_TOP_ENTRIES c),
     top_users = BoundedCounter_init (MAX_TOP_ENTRIES c),
     top_commands = BoundedCounter_init (MAX_TOP_ENTRIES c),
     attack_timeline = deque_init (MAX_TIMELINE_ENTRIES c),
     countries = BoundedCounter_init 500,
     organizations = BoundedCounter_init (MAX_TOP_ENTRIES c),
     asns = BoundedCounter_init (MAX_TOP_ENTRIES c),
     markers = deque_init (MAX_MAP_MARKERS c),
     heatpoints = deque_init (MAX_MAP_MARKERS c),
     alerts = deque_init (MAX_ALERTS c),
     alerted_ips = BoundedSet_init 10000,
     alerted_countries = BoundedSet_init 500,
     alerted_orgs = BoundedSet_init 5000,
     running = True, last_position = 0, last_inode = None,
     stats_cache = None, stats_cache_time = 0, stats_dirty = True,
     enrich_queue = queue_init (ENRICHMENT_QUEUE_SIZE c)\<rparr>"

subsection \<open>Enrichment services\<close>

text \<open>
  Modelled from the spec: \<open>geoip_service.GeoIPService\<close> and \<open>asn_service.ASNService\<close> are
  imported by the monitor and are not part of the sources at hand.  The specification
  gives their contract: \<open>Enrich(record) -> record'\<close> is purely additive, it adds the
  geolocation (respectively ownership) fields if the address resolves and leaves the
  record unchanged otherwise.  The lookups themselves are parameters.
\<close>

record services =
  geo_lookup :: "entry \<Rightarrow> geo option"
  asn_lookup :: "entry \<Rightarrow> asn_rec option"

definition geoip_enrich_log_entry :: "services \<Rightarrow> entry \<Rightarrow> entry" where
  "geoip_enrich_log_entry svc e =
     (case geo_lookup svc e of None \<Rightarrow> e | Some g \<Rightarrow> e\<lparr>geo_location := Some g\<rparr>)"

definition asn_enrich_log_entry :: "services \<Rightarrow> entry \<Rightarrow> entry" where
  "asn_enrich_log_entry svc e =
     (case asn_lookup svc e of None \<Rightarrow> e | Some a \<Rightarrow> e\<lparr>asn_info := Some a\<rparr>)"

subsection \<open>Updating the statistics\<close>

text \<open>\<open>if value: collection.add(value)\<close> and \<open>if value: counter.increment(value)\<close>.\<close>

definition add_if :: "string BoundedSet \<Rightarrow> string option \<Rightarrow> string BoundedSet" where
  "add_if s v = (case v of None \<Rightarrow> s | Some x \<Rightarrow> if x = [] then s else add s x)"

definition increment_if :: "string BoundedCounter \<Rightarrow> string option \<Rightarrow> string BoundedCounter" where
  "increment_if c v = (case v of None \<Rightarrow> c | Some x \<Rightarrow> if x = [] then c else snd (increment c x))"

definition or_default :: "string option \<Rightarrow> string \<Rightarrow> string" where
  "or_default v dflt = (case v of None \<Rightarrow> dflt | Some s \<Rightarrow> s)"

definition process_login :: "entry \<Rightarrow> bool \<Rightarrow> monitor \<Rightarrow> monitor" where
  "process_login e is_success m =
     (let m1 = (if is_success then m\<lparr>successful_logins := successful_logins m + 1\<rparr>
                else m\<lparr>failed_logins := failed_logins m + 1\<rparr>);
          event_type = (if is_success then ''login.success'' else ''login.failed'');
          m2 = m1\<lparr>unique_passwords := add_if (unique_passwords m1) (password e),
                   top_passwords := increment_if (top_passwords m1) (password e)\<rparr>;
          m3 = m2\<lparr>unique_users := add_if (unique_users m2) (username e),
                   top_users := increment_if (top_users m2) (username e)\<rparr>
      in m3\<lparr>recent_attacks := deque_append (recent_attacks m3)
           \<lparr>ra_timestamp = Some (or_default (timestamp e) []),
            ra_ip = Some (or_default (src_ip e) ''Unknown''),
            ra_event = event_type,
            ra_country = geo_country_or e ''Unknown'',
            ra_organization = asn_organization_or e ''Unknown'',
            ra_latitude = geo_latitude e, ra_longitude = geo_longitude e,
            ra_username = username e, ra_password = password e\<rparr>\<rparr>)"

text \<open>
  The branch on the event kind.  \<open>eventid\<close> and \<open>ip\<close> were read from the entry before the
  enrichment; the other fields are read from the enriched entry \<open>e\<close>.
\<close>

definition dispatch_event :: "string option \<Rightarrow> string option \<Rightarrow> entry \<Rightarrow> monitor \<Rightarrow> monitor" where
  "dispatch_event evid ip e m =
     (if evid = Some ''cowrie.session.connect'' then
        m\<lparr>total_connections := total_connections m + 1,
          unique_ips := add (unique_ips m) ip,
          top_ips := snd (increment (top_ips m) ip),
          recent_attacks := deque_append (recent_attacks m)
            \<lparr>ra_timestamp = timestamp e, ra_ip = ip, ra_event = ''connection'',
             ra_country = geo_country_or e ''Unknown'',
             ra_organization = asn_organization_or e ''Unknown'',
             ra_latitude = geo_latitude e, ra_longitude = geo_longitude e,
             ra_username = username e, ra_password = password e\<rparr>\<rparr>
      else if evid = Some ''cowrie.login.failed'' then process_login e False m
      else if evid = Some ''cowrie.login.success'' then process_login e True m
      else if evid = Some ''cowrie.command.input'' then
        (let m1 = m\<lparr>commands_executed := commands_executed m + 1\<rparr>
         in m1\<lparr>top_commands := increment_if (top_commands m1) (Some (or_default (input e) []))\<rparr>)
      else m)"

datatype error = KeyError string

text \<open>
  The map data: a marker and a heat point when the location has both coordinates (and
  neither is zero).  The marker reads \<open>geo['country']\<close>, which raises \<open>KeyError\<close> when the
  location has no country.
\<close>

definition update_map_data :: "string option \<Rightarrow> entry \<Rightarrow> monitor \<Rightarrow> error + monitor" where
  "update_map_data evid e m =
     (case geo_location e of
        None \<Rightarrow> Inr m
      | Some g \<Rightarrow>
          if truthy_geo (Some g) \<and> truthy_num (latitude g) \<and> truthy_num (longitude g) then
            (case (latitude g, longitude g, country g) of
               (Some lat, Some lng, Some c) \<Rightarrow>
                 Inr (m\<lparr>markers := deque_append (markers m)
                          \<lparr>mk_lat = lat, mk_lng = lng, mk_ip = src_ip e, mk_country = c,
                           mk_city = city g, mk_timestamp = timestamp e, mk_event = evid,
                           mk_username = username e,
                           mk_organization = asn_organization_or e ''Unknown'',
                           mk_asn = asn_number_or e ''Unknown''\<rparr>,
                        heatpoints := deque_append (heatpoints m)
                          \<lparr>hp_lat = lat, hp_lng = lng, hp_intensity = 1\<rparr>\<rparr>)
             | _ \<Rightarrow> Inl (KeyError ''country''))
          else Inr m)"

definition update_country_stats :: "entry \<Rightarrow> monitor \<Rightarrow> monitor" where
  "update_country_stats e m =
     (if truthy_geo (geo_location e) then
        (let c = geo_country_or e ''Unknown''
         in if c \<noteq> ''Unknown'' then m\<lparr>countries := snd (increment (countries m) c)\<rparr> else m)
      else m)"

definition update_org_stats :: "entry \<Rightarrow> monitor \<Rightarrow> monitor" where
  "update_org_stats e m =
     (let m1 = m\<lparr>organizations := increment_if (organizations m) (asn_organization e)\<rparr>
      in m1\<lparr>asns := increment_if (asns m1) (asn_number e)\<rparr>)"

definition update_timeline :: "string option \<Rightarrow> string option \<Rightarrow> entry \<Rightarrow> monitor \<Rightarrow> monitor" where
  "update_timeline evid ip e m =
     m\<lparr>attack_timeline := deque_append (attack_timeline m)
        \<lparr>tl_timestamp = timestamp e, tl_event = evid, tl_ip = ip,
         tl_country = geo_country_or e ''Unknown'',
         tl_organization = asn_organization_or e ''Unknown'',
         tl_username = username e\<rparr>\<rparr>"

subsection \<open>Alerts\<close>

text \<open>
  \<open>_add_alert\<close> appends the alert to the bounded history and publishes it.  The history
  forgets old alerts, so the functions below also return the alerts they emitted, in
  order; \<open>now\<close> is the reading of the wall clock.
\<close>

definition add_alert :: "string \<Rightarrow> string \<Rightarrow> string \<Rightarrow> entry \<Rightarrow> monitor \<Rightarrow> alert \<times> monitor" where
  "add_alert now level message e m =
     (let a = \<lparr>al_timestamp = now, al_level = level, al_message = message, al_ip = src_ip e,
                al_country = geo_country_or e ''Unknown'',
                al_organization = asn_organization_or e ''Unknown''\<rparr>
      in (a, m\<lparr>alerts := deque_append (alerts m) a\<rparr>))"

definition alert_high_frequency :: "string \<Rightarrow> entry \<Rightarrow> monitor \<Rightarrow> alert list \<times> monitor" where
  "alert_high_frequency now e m =
     (let ip = or_default (src_ip e) []
      in if eventid e = Some ''cowrie.session.connect''
            \<and> bc_get (top_ips m) (Some ip) > 10 \<and> \<not> bs_contains (alerted_ips m) ip
         then (let m1 = m\<lparr>alerted_ips := add (alerted_ips m) ip\<rparr>;
                   (a, m2) = add_alert now ''HIGH'' (''High frequency attacks from '' @ ip) e m1
               in ([a], m2))
         else ([], m))"

definition alert_long_password :: "string \<Rightarrow> entry \<Rightarrow> monitor \<Rightarrow> alert list \<times> monitor" where
  "alert_long_password now e m =
     (let ip = or_default (src_ip e) [];
          pw = or_default (password e) []
      in if eventid e = Some ''cowrie.login.success'' \<and> pw \<noteq> [] \<and> length pw > 20
         then (let (a, m1) = add_alert now ''MEDIUM'' (''Suspicious long password from '' @ ip) e m
               in ([a], m1))
         else ([], m))"

definition alert_country :: "string \<Rightarrow> entry \<Rightarrow> monitor \<Rightarrow> alert list \<times> monitor" where
  "alert_country now e m =
     (if truthy_geo (geo_location e) then
        (let c = geo_country_or e ''Unknown''
         in if c \<noteq> ''Unknown'' \<and> bc_get (countries m) c > 20 \<and> \<not> bs_contains (alerted_countries m) c
            then (let m1 = m\<lparr>alerted_countries := add (alerted_countries m) c\<rparr>;
                      (a, m2) = add_alert now ''MEDIUM'' (''High attack volume from '' @ c) e m1
                  in ([a], m2))
            else ([], m))
      else ([], m))"

definition alert_organization :: "string \<Rightarrow> entry \<Rightarrow> monitor \<Rightarrow> alert list \<times> monitor" where
  "alert_organization now e m =
     (if truthy_asn (asn_info e) \<and> truthy_str (asn_organization e) then
        (let org = or_default (asn_organization e) []
         in if bc_get (organizations m) org > 15 \<and> \<not> bs_contains (alerted_orgs m) org
            then (let m1 = m\<lparr>alerted_orgs := add (alerted_orgs m) org\<rparr>;
                      (a, m2) = add_alert now ''MEDIUM'' (''High attack volume from '' @ org) e m1
                  in ([a], m2))
            else ([], m))
      else ([], m))"

text \<open>\<open>check_alerts\<close>: the four rules in the order of the source.\<close>

definition check_alerts :: "string \<Rightarrow> entry \<Rightarrow> monitor \<Rightarrow> alert list \<times> monitor" where
  "check_alerts now e m =
     (let (a1, m1) = alert_high_frequency now e m;
          (a2, m2) = alert_long_password now e m1;
          (a3, m3) = alert_country now e m2;
          (a4, m4) = alert_organization now e m3
      in (a1 @ a2 @ a3 @ a4, m4))"

subsection \<open>The update paths\<close>

text \<open>
  \<open>_update_asn_stats\<close>, the update made by the enrichment worker for an entry that the
  ownership service has annotated.
\<close>

definition update_asn_stats :: "entry \<Rightarrow> monitor \<Rightarrow> monitor" where
  "update_asn_stats e m =
     (if \<not> truthy_asn (asn_info e) then m
      else (let m1 = m\<lparr>organizations := increment_if (organizations m) (asn_organization e)\<rparr>;
                m2 = m1\<lparr>asns := increment_if (asns m1) (asn_number e)\<rparr>
            in m2\<lparr>stats_dirty := True\<rparr>))"

text \<open>
  \<open>update_stats\<close>.  An exception leaves the changes made before it in place and skips the
  rest, so the result pairs the outcome (the error, or the alerts emitted) with the
  state reached.
\<close>

definition enqueue_enrichment :: "entry \<Rightarrow> monitor \<Rightarrow> monitor" where
  "enqueue_enrichment e m =
     (if \<not> truthy_str (asn_organization e) then
        (case put_nowait (enrich_queue m) e of None \<Rightarrow> m | Some q \<Rightarrow> m\<lparr>enrich_queue := q\<rparr>)
      else m)"

definition update_stats :: "services \<Rightarrow> string \<Rightarrow> entry \<Rightarrow> monitor \<Rightarrow> (error + alert list) \<times> monitor" where
  "update_stats svc now entry0 m =
     (let evid = eventid entry0;
          ip = src_ip entry0;
          e = asn_enrich_log_entry svc (geoip_enrich_log_entry svc entry0);
          m1 = dispatch_event evid ip e m
      in case update_map_data evid e m1 of
           Inl err \<Rightarrow> (Inl err, m1)
         | Inr m2 \<Rightarrow>
             (let m3 = update_country_stats e m2;
                  m4 = update_org_stats e m3;
                  m5 = update_timeline evid ip e m4;
                  m6 = m5\<lparr>stats_dirty := True\<rparr>;
                  (emitted, m7) = check_alerts now e m6
              in (Inr emitted, enqueue_enrichment e m7)))"

text \<open>
  The loop over one batch of parsed entries, each with the clock reading of its alert
  check.  It collects the alerts emitted per entry.  An exception leaves the loop: the
  entries after it in the batch are not processed.
\<close>

fun feed :: "services \<Rightarrow> (string \<times> entry) list \<Rightarrow> monitor \<Rightarrow> error option \<times> alert list list \<times> monitor" where
  "feed svc [] m = (None, [], m)"
| "feed svc ((now, e) # es) m =
     (case update_stats svc now e m of
        (Inl err, m1) \<Rightarrow> (Some err, [], m1)
      | (Inr emitted, m1) \<Rightarrow>
          (let (r, out, m2) = feed svc es m1 in (r, emitted # out, m2)))"

subsection \<open>Tailing the log file\<close>

text \<open>
  The file system as one poll sees it: the inode the log path names (\<open>None\<close> when the
  path does not exist), the content of every inode (a handle keeps reading the file it
  opened, also after the path was replaced), and whether \<open>os.stat\<close> or \<open>open\<close> fail.
  Positions and sizes are byte counts.
\<close>

record os_state =
  path_inode :: "nat option"
  inode_content :: "nat \<Rightarrow> string"
  stat_raises :: bool
  open_raises :: bool

record handle =
  h_inode :: nat
  h_pos :: nat

definition os_stat :: "os_state \<Rightarrow> (nat \<times> nat) option" where
  "os_stat os =
     (if stat_raises os then None
      else (case path_inode os of None \<Rightarrow> None
            | Some i \<Rightarrow> Some (i, length (inode_content os i))))"

definition detect_log_rotation :: "os_state \<Rightarrow> monitor \<Rightarrow> bool \<times> monitor" where
  "detect_log_rotation os m =
     (case os_stat os of
        None \<Rightarrow> (False, m)
      | Some (current_inode, current_size) \<Rightarrow>
          if current_size < last_position m then
            (True, m\<lparr>last_position := 0, last_inode := Some current_inode\<rparr>)
          else if last_inode m \<noteq> None \<and> Some current_inode \<noteq> last_inode m then
            (True, m\<lparr>last_position := 0, last_inode := Some current_inode\<rparr>)
          else (False, m\<lparr>last_inode := Some current_inode\<rparr>))"

text \<open>\<open>readlines\<close>: the rest of the file from the position of the handle, cut after each newline.\<close>

fun split_lines :: "string \<Rightarrow> string \<Rightarrow> string list" where
  "split_lines cur [] = (if cur = [] then [] else [cur])"
| "split_lines cur (c # cs) =
     (if c = CHR 0x0A then (cur @ [c]) # split_lines [] cs else split_lines (cur @ [c]) cs)"

definition readlines :: "os_state \<Rightarrow> handle \<Rightarrow> string list \<times> handle" where
  "readlines os h =
     (let content = inode_content os (h_inode h)
      in (split_lines [] (drop (h_pos h) content), h\<lparr>h_pos := max (h_pos h) (length content)\<rparr>))"

text \<open>
  The first half of one turn of the loop of \<open>monitor_logs\<close>: the rotation check, the
  handle opened or kept, the lines read and the position saved.
\<close>

datatype poll_result = NoFile | Failed | Lines "string list"

definition poll_read :: "os_state \<Rightarrow> monitor \<Rightarrow> handle option \<Rightarrow> poll_result \<times> monitor \<times> handle option" where
  "poll_read os m file_handle =
     (case path_inode os of
        None \<Rightarrow> (NoFile, m, None)
      | Some i \<Rightarrow>
          (let (rotated, m1) = detect_log_rotation os m
           in case (if rotated then None else file_handle) of
                None \<Rightarrow>
                  if open_raises os then (Failed, m1, None)
                  else (let (new_lines, h) = readlines os \<lparr>h_inode = i, h_pos = last_position m1\<rparr>
                        in (Lines new_lines, m1\<lparr>last_position := h_pos h\<rparr>, Some h))
              | Some h0 \<Rightarrow>
                  (let (new_lines, h) = readlines os h0
                   in (Lines new_lines, m1\<lparr>last_position := h_pos h\<rparr>, Some h))))"

text \<open>
  The second half: blank lines are skipped, each other line is parsed and, when it is a
  non-empty JSON object, fed to \<open>update_stats\<close>.  The parser (\<open>json.loads\<close>) and the clock
  are parameters.  An exception closes the handle.
\<close>

definition whitespace :: "char set" where
  "whitespace = {CHR 0x20, CHR 0x09, CHR 0x0A, CHR 0x0B, CHR 0x0C, CHR 0x0D,
                 CHR 0x1C, CHR 0x1D, CHR 0x1E, CHR 0x1F}"

definition is_blank :: "string \<Rightarrow> bool" where
  "is_blank line = list_all (\<lambda>c. c \<in> whitespace) line"

definition parse_lines :: "(string \<Rightarrow> entry option) \<Rightarrow> string list \<Rightarrow> entry list" where
  "parse_lines parse_log_entry ls =
     List.map_filter parse_log_entry (filter (\<lambda>line. \<not> is_blank line) ls)"

definition monitor_logs_step ::
  "services \<Rightarrow> (string \<Rightarrow> entry option) \<Rightarrow> (nat \<Rightarrow> string) \<Rightarrow> os_state \<Rightarrow>
   monitor \<Rightarrow> handle option \<Rightarrow> alert list list \<times> monitor \<times> handle option" where
  "monitor_logs_step svc parse_log_entry clock os m file_handle =
     (case poll_read os m file_handle of
        (Lines new_lines, m1, fh) \<Rightarrow>
          (let es = parse_lines parse_log_entry new_lines;
               (r, out, m2) = feed svc (zip (map clock [0..<length es]) es) m1
           in (out, m2, if r = None then fh else None))
      | (_, m1, fh) \<Rightarrow> ([], m1, fh))"

subsection \<open>The cached summary\<close>



subsection \<open>Observing the alerts\<close>

text \<open>
  The high-frequency rule is the only one that emits alerts of level \<open>HIGH\<close>; the alerts
  of the long-password rule are the \<open>MEDIUM\<close> ones whose message starts with
  \<open>Suspicious long password from\<close>.
\<close>

definition high_frequency_messages :: "alert list \<Rightarrow> string list" where
  "high_frequency_messages emitted = map al_message (filter (\<lambda>a. al_level a = ''HIGH'') emitted)"

definition is_long_password_alert :: "alert \<Rightarrow> bool" where
  "is_long_password_alert a \<longleftrightarrow>
     al_level a = ''MEDIUM'' \<and> take 30 (al_message a) = ''Suspicious long password from ''"

text \<open>The entry as \<open>update_stats\<close> sees it after both enrichments.\<close>

definition enriched :: "services \<Rightarrow> entry \<Rightarrow> entry" where
  "enriched svc e = asn_enrich_log_entry svc (geoip_enrich_log_entry svc e)"

text \<open>
  The marker of \<open>update_stats\<close> raises no \<open>KeyError\<close>: a location with both coordinates
  names its country.
\<close>

definition map_data_ok :: "entry \<Rightarrow> bool" where
  "map_data_ok e =
     (case geo_location e of None \<Rightarrow> True
      | Some g \<Rightarrow> \<not> (truthy_num (latitude g) \<and> truthy_num (longitude g)) \<or> country g \<noteq> None)"

subsection \<open>Sample inputs\<close>

text \<open>
  Entries as cowrie writes them (no location and no ownership before the enrichment),
  and services whose databases resolve no address.
\<close>

definition connect_entry :: "string \<Rightarrow> entry" where
  "connect_entry a = \<lparr>eventid = Some ''cowrie.session.connect'', src_ip = Some a,
     timestamp = None, username = None, password = None, input = None,
     geo_location = None, asn_info = None\<rparr>"

definition login_success_entry :: "string \<Rightarrow> string \<Rightarrow> string \<Rightarrow> entry" where
  "login_success_entry a u p = \<lparr>eventid = Some ''cowrie.login.success'', src_ip = Some a,
     timestamp = None, username = Some u, password = Some p, input = None,
     geo_location = None, asn_info = None\<rparr>"

definition no_services :: services where
  "no_services = \<lparr>geo_lookup = (\<lambda>e. None), asn_lookup = (\<lambda>e. None)\<rparr>"

subsection \<open>A long run of connections\<close>

text \<open>
  Bursts of connect records, address after address, and a supply of distinct source
  addresses \<open>10.0.0.0\<close>, \<open>10.0.0.1\<close>, ... written in decimal.  The run
  \<open>alert_flood_input\<close> is 11 connections from each of 10000 addresses followed by 13
  connections from \<open>203.0.113.7\<close>.
\<close>

definition connect_bursts :: "string \<Rightarrow> nat \<Rightarrow> string list \<Rightarrow> (string \<times> entry) list" where
  "connect_bursts now n as = concat (map (\<lambda>a. replicate n (now, connect_entry a)) as)"

definition digit :: "nat \<Rightarrow> char" where
  "digit d = char_of (48 + d)"

fun dec :: "nat \<Rightarrow> string" where
  "dec n = (if n < 10 then [digit n] else dec (n div 10) @ [digit (n mod 10)])"

declare dec.simps [simp del]

definition address :: "nat \<Rightarrow> string" where
  "address n = ''10.0.'' @ dec (n div 256) @ ''.'' @ dec (n mod 256)"

definition many_addresses :: "string list" where
  "many_addresses = map address [0..<10000]"

definition alert_flood_input :: "(string \<times> entry) list" where
  "alert_flood_input =
     connect_bursts ''t'' 11 many_addresses @ replicate 13 (''t'', connect_entry ''203.0.113.7'')"

section \<open>Properties of the bounded collections\<close>

subsection \<open>Dictionary operations\<close>

lemma dict_keys_dict_set:
  "dict_keys (dict_set d k v) = (if k \<in> set (dict_keys d) then dict_keys d else dict_keys d @ [k])"
  unfolding dict_keys_def by (induction d) force+

lemma length_dict_set:
  "length (dict_set d k v) = (if k \<in> set (dict_keys d) then length d else Suc (length d))"
  unfolding dict_keys_def by (induction d) force+

lemma dict_set_fresh: "k \<notin> set (dict_keys d) \<Longrightarrow> dict_set d k v = d @ [(k, v)]"
  by (induction d) (auto simp: dict_keys_def)

lemma distinct_dict_set: "distinct (dict_keys d) \<Longrightarrow> distinct (dict_keys (dict_set d k v))"
  by (simp add: dict_keys_dict_set)

lemma dict_get_dict_set: "dict_get (dict_set d k v) k' dflt = (if k' = k then v else dict_get d k' dflt)"
  by (induction d) (auto simp: dict_get_def)

lemma dict_get_fresh: "k \<notin> set (dict_keys d) \<Longrightarrow> dict_get d k dflt = dflt"
  by (induction d) (auto simp: dict_get_def dict_keys_def)

lemma foldl_dict_del: "foldl dict_del d ks = filter (\<lambda>kv. fst kv \<notin> set ks) d"
proof (induction ks arbitrary: d)
  case Nil
  then show ?case by simp
next
  case (Cons k ks)
  have "foldl dict_del d (k # ks) = foldl dict_del (dict_del d k) ks" by simp
  also have "\<dots> = filter (\<lambda>kv. fst kv \<notin> set ks) (dict_del d k)" by (rule Cons.IH)
  also have "\<dots> = filter (\<lambda>kv. fst kv \<notin> set (k # ks)) d"
    by (auto simp: dict_del_def intro: filter_cong)
  finally show ?case .
qed

lemma length_filter_keys:
  assumes "distinct (map fst d)" "distinct ks" "set ks \<subseteq> fst ` set d"
  shows "length (filter (\<lambda>kv. fst kv \<in> set ks) d) = length ks"
proof -
  let ?fs = "filter (\<lambda>k. k \<in> set ks) (map fst d)"
  have m: "map fst (filter (\<lambda>kv. fst kv \<in> set ks) d) = ?fs"
    by (simp add: filter_map comp_def)
  have "distinct ?fs" using assms(1) by (rule distinct_filter)
  then have "length ?fs = card (set ?fs)" by (simp only: distinct_card)
  moreover have "set ?fs = set ks" using assms(3) by auto
  moreover have "card (set ks) = length ks" using assms(2) by (rule distinct_card)
  moreover have "length (filter (\<lambda>kv. fst kv \<in> set ks) d) = length ?fs"
    unfolding m[symmetric] by (simp only: length_map)
  ultimately show ?thesis by simp
qed

lemma length_foldl_dict_del:
  assumes "distinct (dict_keys d)" "distinct ks" "set ks \<subseteq> set (dict_keys d)"
  shows "length (foldl dict_del d ks) = length d - length ks"
proof -
  have "length (filter (\<lambda>kv. fst kv \<in> set ks) d) + length (filter (\<lambda>kv. \<not> fst kv \<in> set ks) d) = length d"
    by (rule sum_length_filter_compl)
  moreover have "length (filter (\<lambda>kv. fst kv \<in> set ks) d) = length ks"
    using assms by (intro length_filter_keys) (auto simp: dict_keys_def)
  ultimately show ?thesis by (simp add: foldl_dict_del)
qed

lemma dict_keys_foldl_dict_del:
  "dict_keys (foldl dict_del d ks) = filter (\<lambda>k. k \<notin> set ks) (dict_keys d)"
  by (simp add: foldl_dict_del dict_keys_def filter_map comp_def)

lemma maybe_evict_over:
  "int (length (bc_data c)) > bc_maxsize c \<Longrightarrow>
   bc_data (maybe_evict c) = foldl dict_del (bc_data c)
     (take (nat (max 1 (bc_maxsize c div 10)))
        (sort_key (\<lambda>k. dict_get (bc_data c) k 0) (dict_keys (bc_data c))))"
  by (simp add: maybe_evict_def Let_def)

lemma maybe_evict_within:
  "\<not> int (length (bc_data c)) > bc_maxsize c \<Longrightarrow> maybe_evict c = c"
  by (simp add: maybe_evict_def)

lemma length_maybe_evict:
  assumes "distinct (dict_keys (bc_data c))"
  shows "length (bc_data (maybe_evict c)) =
     (if int (length (bc_data c)) > bc_maxsize c
      then length (bc_data c) - min (nat (max 1 (bc_maxsize c div 10))) (length (bc_data c))
      else length (bc_data c))"
proof (cases "int (length (bc_data c)) > bc_maxsize c")
  case True
  define sk where "sk = sort_key (\<lambda>k. dict_get (bc_data c) k 0) (dict_keys (bc_data c))"
  define n where "n = nat (max 1 (bc_maxsize c div 10))"
  have dsk: "distinct sk" using assms by (simp add: sk_def)
  have ssk: "set sk = set (dict_keys (bc_data c))" by (simp add: sk_def)
  have lsk: "length sk = length (bc_data c)" by (simp add: sk_def dict_keys_def)
  have d: "distinct (take n sk)" using dsk by (rule distinct_take)
  have s: "set (take n sk) \<subseteq> set (dict_keys (bc_data c))"
    using set_take_subset[of n sk] ssk by simp
  have l1: "length (foldl dict_del (bc_data c) (take n sk)) = length (bc_data c) - length (take n sk)"
    using assms d s by (rule length_foldl_dict_del)
  have l2: "length (take n sk) = min n (length (bc_data c))"
    unfolding length_take lsk by (rule min.commute)
  have e: "bc_data (maybe_evict c) = foldl dict_del (bc_data c) (take n sk)"
    unfolding n_def sk_def using True by (rule maybe_evict_over)
  have "length (bc_data (maybe_evict c)) = length (bc_data c) - min n (length (bc_data c))"
    by (simp only: e l1 l2)
  then show ?thesis using True unfolding n_def by (simp only: if_True)
next
  case False
  then show ?thesis by (simp add: maybe_evict_within)
qed

lemma distinct_maybe_evict:
  "distinct (dict_keys (bc_data c)) \<Longrightarrow> distinct (dict_keys (bc_data (maybe_evict c)))"
  by (simp add: maybe_evict_def Let_def dict_keys_foldl_dict_del)

lemma bc_maxsize_maybe_evict: "bc_maxsize (maybe_evict c) = bc_maxsize c"
  by (simp add: maybe_evict_def Let_def)

lemma bc_maxsize_increment: "bc_maxsize (snd (increment c k)) = bc_maxsize c"
  by (simp add: increment_def Let_def bc_maxsize_maybe_evict)

lemma distinct_increment:
  "distinct (dict_keys (bc_data c)) \<Longrightarrow> distinct (dict_keys (bc_data (snd (increment c k))))"
  by (simp add: increment_def Let_def distinct_maybe_evict distinct_dict_set)

lemma increment_size_le:
  assumes "0 \<le> bc_maxsize c" "distinct (dict_keys (bc_data c))" "bc_len c \<le> bc_maxsize c"
  shows "bc_len (snd (increment c k)) \<le> bc_maxsize c"
proof -
  let ?d = "dict_set (bc_data c) k (dict_get (bc_data c) k 0 + 1)"
  let ?c = "c\<lparr>bc_data := ?d\<rparr>"
  have dd: "distinct (dict_keys (bc_data ?c))" using assms(2) by (simp add: distinct_dict_set)
  have len: "int (length ?d) \<le> bc_maxsize c + 1"
    using assms(3) by (simp add: length_dict_set bc_len_def)
  have "int (length (bc_data (maybe_evict ?c))) \<le> bc_maxsize c"
    unfolding length_maybe_evict[OF dd] using len assms(1) by auto
  then show ?thesis by (simp add: increment_def Let_def bc_len_def)
qed

lemma increment_no_evict:
  assumes "k \<notin> set (dict_keys (bc_data c))" "int (length (bc_data c)) < bc_maxsize c"
  shows "snd (increment c k) = c\<lparr>bc_data := bc_data c @ [(k, 1)]\<rparr>"
  using assms by (simp add: increment_def Let_def maybe_evict_def dict_set_fresh dict_get_fresh)

lemma increment_overflow_size:
  assumes "distinct (dict_keys (bc_data c))" "k \<notin> set (dict_keys (bc_data c))"
    "bc_len c = bc_maxsize c"
  shows "bc_len (snd (increment c k)) = bc_maxsize c + 1 - max 1 (bc_maxsize c div 10)"
proof -
  let ?d = "dict_set (bc_data c) k (dict_get (bc_data c) k 0 + 1)"
  let ?c = "c\<lparr>bc_data := ?d\<rparr>"
  have dd: "distinct (dict_keys (bc_data ?c))" using assms(1) by (simp add: distinct_dict_set)
  have len: "int (length ?d) = bc_maxsize c + 1"
    using assms(2,3) by (simp add: length_dict_set bc_len_def)
  have "0 \<le> bc_maxsize c" using assms(3) by (simp add: bc_len_def)
  then have "max 1 (bc_maxsize c div 10) \<le> bc_maxsize c + 1" by auto
  then have "int (length (bc_data (maybe_evict ?c))) = bc_maxsize c + 1 - max 1 (bc_maxsize c div 10)"
    unfolding length_maybe_evict[OF dd] using len by auto
  then show ?thesis by (simp add: increment_def Let_def bc_len_def)
qed


subsection \<open>Runs of increments\<close>

lemma increments_Nil: "increments c [] = c"
  by (simp add: increments_def)

lemma increments_snoc: "increments c (ks @ [k]) = snd (increment (increments c ks) k)"
  by (simp add: increments_def)

lemma increments_invariant:
  assumes "0 \<le> bc_maxsize c" "distinct (dict_keys (bc_data c))" "bc_len c \<le> bc_maxsize c"
  shows "bc_maxsize (increments c ks) = bc_maxsize c
     \<and> distinct (dict_keys (bc_data (increments c ks)))
     \<and> bc_len (increments c ks) \<le> bc_maxsize c"
proof (induction ks rule: rev_induct)
  case Nil
  then show ?case using assms by (simp add: increments_Nil)
next
  case (snoc k ks)
  let ?c = "increments c ks"
  have m: "bc_maxsize ?c = bc_maxsize c" and d: "distinct (dict_keys (bc_data ?c))"
    and l: "bc_len ?c \<le> bc_maxsize ?c" using snoc by simp_all
  have "0 \<le> bc_maxsize ?c" using assms(1) m by simp
  then have "bc_len (snd (increment ?c k)) \<le> bc_maxsize ?c" using d l by (rule increment_size_le)
  then show ?case
    by (simp add: increments_snoc bc_maxsize_increment distinct_increment m d)
qed

lemma increments_distinct_within:
  assumes "distinct ks" "int (length ks) \<le> C"
  shows "increments (BoundedCounter_init C) ks = \<lparr>bc_data = map (\<lambda>k. (k, 1)) ks, bc_maxsize = C\<rparr>"
  using assms
proof (induction ks rule: rev_induct)
  case Nil
  then show ?case by (simp add: increments_Nil BoundedCounter_init_def)
next
  case (snoc k ks)
  let ?c = "\<lparr>bc_data = map (\<lambda>k. (k, 1::int)) ks, bc_maxsize = C\<rparr>"
  have ih: "increments (BoundedCounter_init C) ks = ?c" using snoc by simp
  have f: "k \<notin> set (dict_keys (bc_data ?c))" using snoc.prems(1) by (simp add: dict_keys_def comp_def)
  have l: "int (length (bc_data ?c)) < bc_maxsize ?c" using snoc.prems(2) by simp
  show ?case unfolding increments_snoc ih increment_no_evict[OF f l] by simp
qed

lemma sort_key_snoc_min:
  assumes "\<forall>x\<in>set xs. f k < f x"
  shows "sort_key f (xs @ [k]) = k # sort_key f xs"
proof -
  have "foldr (insort_key f) xs [k] = k # foldr (insort_key f) xs []"
    using assms by (induction xs) (auto simp: not_le)
  then show ?thesis by (simp add: sort_key_def)
qed

lemma increment_fresh_key_evicted:
  assumes "distinct (dict_keys (bc_data c))" "bc_len c = bc_maxsize c"
    "k \<notin> set (dict_keys (bc_data c))" "\<forall>kv\<in>set (bc_data c). 2 \<le> snd kv"
  shows "fst (increment c k) = 1 \<and> k \<notin> set (dict_keys (bc_data (snd (increment c k))))"
proof -
  let ?d = "bc_data c @ [(k, 1)]"
  let ?c = "c\<lparr>bc_data := ?d\<rparr>"
  let ?f = "\<lambda>k'. dict_get ?d k' 0"
  have ds: "dict_set (bc_data c) k (dict_get (bc_data c) k 0 + 1) = ?d"
    using assms(3) by (simp add: dict_set_fresh dict_get_fresh)
  have fk: "?f k = 1"
    unfolding ds[symmetric] using assms(3) by (simp add: dict_get_dict_set dict_get_fresh)
  have fx: "\<forall>x\<in>set (dict_keys (bc_data c)). ?f k < ?f x"
  proof
    fix x assume "x \<in> set (dict_keys (bc_data c))"
    then obtain v where v: "(x, v) \<in> set (bc_data c)" by (auto simp: dict_keys_def)
    then have "map_of (bc_data c) x = Some v" using assms(1) by (simp add: dict_keys_def)
    then have "?f x = v" by (simp add: dict_get_def)
    moreover have "2 \<le> v" using assms(4) v by auto
    ultimately show "?f k < ?f x" using fk by simp
  qed
  have sk: "sort_key ?f (dict_keys ?d) = k # sort_key ?f (dict_keys (bc_data c))"
    using sort_key_snoc_min[OF fx] by (simp add: dict_keys_def)
  have over: "int (length (bc_data ?c)) > bc_maxsize ?c" using assms(2) by (simp add: bc_len_def)
  have "k \<in> set (take (nat (max 1 (bc_maxsize ?c div 10))) (sort_key ?f (dict_keys ?d)))"
    unfolding sk by (simp add: take_Cons')
  then have "k \<notin> set (dict_keys (bc_data (maybe_evict ?c)))"
    unfolding maybe_evict_over[OF over] dict_keys_foldl_dict_del by simp
  moreover have "increment c k = (1, maybe_evict ?c)"
    using assms(3) by (simp add: increment_def Let_def ds fk)
  ultimately show ?thesis by simp
qed

section \<open>The bounded collections: capacity, overflow, eviction\<close>

text \<open>
  Claim C1, as the specification states it, fails: the insert that first makes the size
  exceed the capacity \<open>C\<close> leaves \<open>C + 1 - max(1, C div 10)\<close> keys, one more than the
  stated \<open>C - max(1, C div 10)\<close>.  With capacity 10, eleven distinct keys leave ten keys,
  not nine.
\<close>

theorem C1_eviction_size_counterexample:
  "bc_len (increments (BoundedCounter_init 10)
      [''a'', ''b'', ''c'', ''d'', ''e'', ''f'', ''g'', ''h'', ''i'', ''j'', ''k''])
   \<noteq> 10 - max 1 (10 div 10)"
  by (simp add: increments_def increment_def BoundedCounter_init_def bc_len_def maybe_evict_def
      dict_get_def dict_del_def dict_keys_def Let_def)

text \<open>
  Claim C1, amended: for a counter of capacity \<open>C \<ge> 0\<close> that starts empty, the number of
  stored keys is at most \<open>C\<close> after every increment of any sequence of keys; while
  distinct keys are inserted one increment each and there are at most \<open>C\<close> of them,
  nothing is evicted; the insert of the key number \<open>C + 1\<close> triggers the eviction,
  after which the size is \<open>C + 1 - max(1, C div 10)\<close>.
\<close>

theorem C1_bounded_counter_capacity:
  "0 \<le> C \<Longrightarrow>
     bc_len (increments (BoundedCounter_init C) ks) \<le> C \<and>
     (distinct ks \<and> int (length ks) \<le> C \<longrightarrow>
        bc_len (increments (BoundedCounter_init C) ks) = int (length ks)) \<and>
     (distinct (ks @ [k]) \<and> int (length ks) = C \<longrightarrow>
        bc_len (increments (BoundedCounter_init C) (ks @ [k])) = C + 1 - max 1 (C div 10))"
proof (intro conjI impI)
  assume C: "0 \<le> C"
  let ?c0 = "BoundedCounter_init C :: 'a BoundedCounter"
  have "bc_len (increments ?c0 ks) \<le> bc_maxsize ?c0"
    using increments_invariant[of ?c0 ks] C by (simp add: BoundedCounter_init_def bc_len_def dict_keys_def)
  then show "bc_len (increments ?c0 ks) \<le> C" by (simp add: BoundedCounter_init_def)
next
  assume "distinct ks \<and> int (length ks) \<le> C"
  then show "bc_len (increments (BoundedCounter_init C) ks) = int (length ks)"
    by (simp add: increments_distinct_within bc_len_def)
next
  assume a: "distinct (ks @ [k]) \<and> int (length ks) = C"
  let ?c = "\<lparr>bc_data = map (\<lambda>k. (k, 1::int)) ks, bc_maxsize = C\<rparr>"
  have ih: "increments (BoundedCounter_init C) ks = ?c" using a by (simp add: increments_distinct_within)
  have "bc_len (snd (increment ?c k)) = bc_maxsize ?c + 1 - max 1 (bc_maxsize ?c div 10)"
    using a by (intro increment_overflow_size) (simp_all add: dict_keys_def comp_def bc_len_def)
  then show "bc_len (increments (BoundedCounter_init C) (ks @ [k])) = C + 1 - max 1 (C div 10)"
    unfolding increments_snoc ih by simp
qed


theorem C1_bounded_counter_capacity_witness:
  "(0::int) \<le> 3 \<and> distinct ([''a'', ''b'', ''c''] @ [''d'']) \<and> int (length [''a'', ''b'', ''c'']) = 3 \<and>
   bc_len (increments (BoundedCounter_init 3) [''a'', ''b'', ''c'']) = 3 \<and>
   bc_len (increments (BoundedCounter_init 3) ([''a'', ''b'', ''c''] @ [''d''])) = 3 + 1 - max 1 (3 div 10)"
  using C1_bounded_counter_capacity [of 3 "[''a'', ''b'', ''c'']" "''d''"] by simp

text \<open>
  Claim C10: \<open>increment\<close> reports the count before the eviction.  In a counter that holds
  as many keys as its capacity, all with a count of at least 2, incrementing a key that
  is not stored returns 1, and the eviction of the same call removes that key: \<open>get\<close>
  then returns 0.
\<close>

theorem C10_increment_evicts_fresh_key:
  assumes "distinct (dict_keys (bc_data c))" "bc_len c = bc_maxsize c"
    "k \<notin> set (dict_keys (bc_data c))" "\<forall>kv\<in>set (bc_data c). 2 \<le> snd kv"
  shows "fst (increment c k) = 1 \<and> bc_get (snd (increment c k)) k = 0"
  using increment_fresh_key_evicted[OF assms] by (simp add: bc_get_def dict_get_fresh)

theorem C10_increment_evicts_fresh_key_witness:
  "distinct (dict_keys (bc_data \<lparr>bc_data = [(''a'', 2), (''b'', 2)], bc_maxsize = 2\<rparr>)) \<and>
   bc_len \<lparr>bc_data = [(''a'', 2), (''b'', 2)], bc_maxsize = 2\<rparr> = 2 \<and>
   ''c'' \<notin> set (dict_keys (bc_data \<lparr>bc_data = [(''a'', 2), (''b'', 2)], bc_maxsize = 2\<rparr>)) \<and>
   fst (increment \<lparr>bc_data = [(''a'', 2), (''b'', 2)], bc_maxsize = 2\<rparr> ''c'') = 1 \<and>
   bc_get (snd (increment \<lparr>bc_data = [(''a'', 2), (''b'', 2)], bc_maxsize = 2\<rparr> ''c'')) ''c'' = 0"
  using C10_increment_evicts_fresh_key
    [of "\<lparr>bc_data = [(''a'', 2), (''b'', 2)], bc_maxsize = 2\<rparr>" "''c''"]
  by (simp add: dict_keys_def bc_len_def)

text \<open>
  Claim C4, as the specification states it, fails: in a full set, adding an item that
  is not stored counts it in \<open>overflow\<close> each time.  With capacity 1 and \<open>a\<close> stored,
  adding \<open>b\<close> twice leaves an overflow count of 2, adding it once leaves 1.
\<close>

theorem C4_add_twice_counterexample:
  "add (add (add (BoundedSet_init 1) ''a'') ''b'') ''b'' \<noteq> add (add (BoundedSet_init 1) ''a'') ''b''"
  by (simp add: add_def BoundedSet_init_def fcard_finsert_if fcard_fempty)

text \<open>
  Claim C4, amended: adding an item twice in a row leaves the set in the same state as
  adding it once exactly when the item is already stored or the set holds fewer items
  than its capacity; in a full set every further add of an item that is not stored
  increases the overflow count by one.
\<close>

theorem C4_add_idempotent_iff:
  "(add (add s x) x = add s x \<longleftrightarrow> x |\<in>| bs_data s \<or> int (fcard (bs_data s)) < bs_maxsize s) \<and>
   (x |\<notin>| bs_data s \<and> \<not> int (fcard (bs_data s)) < bs_maxsize s \<longrightarrow>
      add (add s x) x = (add s x)\<lparr>bs_overflow_count := bs_overflow_count (add s x) + 1\<rparr>)"
proof (cases "x |\<in>| bs_data s \<or> int (fcard (bs_data s)) < bs_maxsize s")
  case True
  then show ?thesis by (auto simp: add_def)
next
  case False
  then have "bs_overflow_count (add (add s x) x) = bs_overflow_count (add s x) + 1"
    by (simp add: add_def)
  then have "add (add s x) x \<noteq> add s x" by auto
  moreover have "add (add s x) x = (add s x)\<lparr>bs_overflow_count := bs_overflow_count (add s x) + 1\<rparr>"
    using False by (simp add: add_def)
  ultimately show ?thesis using False by simp
qed

theorem C4_add_idempotent_iff_witness:
  "add (add (BoundedSet_init 2) ''a'') ''a'' = add (BoundedSet_init 2) ''a'' \<and>
   ''b'' |\<notin>| bs_data (add (BoundedSet_init 1) ''a'') \<and>
   \<not> int (fcard (bs_data (add (BoundedSet_init 1) ''a''))) < bs_maxsize (add (BoundedSet_init 1) ''a'') \<and>
   add (add (add (BoundedSet_init 1) ''a'') ''b'') ''b'' =
     (add (add (BoundedSet_init 1) ''a'') ''b'')
       \<lparr>bs_overflow_count := bs_overflow_count (add (add (BoundedSet_init 1) ''a'') ''b'') + 1\<rparr>"
  using C4_add_idempotent_iff [of "BoundedSet_init 2" "''a''"]
    C4_add_idempotent_iff [of "add (BoundedSet_init 1) ''a''" "''b''"]
  by (simp add: add_def BoundedSet_init_def fcard_finsert_if fcard_fempty)

text \<open>
  Claim C7: with capacity 2, after adding \<open>a\<close>, \<open>b\<close>, \<open>c\<close>, \<open>a\<close> the set stores 2 items,
  has seen 3, and does not contain \<open>c\<close>.
\<close>

theorem C7_bounded_set_overflow:
  "bs_len (adds (BoundedSet_init 2) [''a'', ''b'', ''c'', ''a'']) = 2 \<and>
   total_seen (adds (BoundedSet_init 2) [''a'', ''b'', ''c'', ''a'']) = 3 \<and>
   bs_contains (adds (BoundedSet_init 2) [''a'', ''b'', ''c'', ''a'']) ''c'' = False"
  by (simp add: adds_def add_def BoundedSet_init_def bs_len_def total_seen_def bs_contains_def
      fcard_finsert_if fcard_fempty)

section \<open>The summary, the enrichment update and the tailer\<close>




text \<open>
  Claim C9: \<open>_update_asn_stats\<close> changes nothing but the organization counter, the ASN
  counter and the dirty flag.  For every entry and every state, the state it returns is
  the state it was given with those three fields replaced; the scalar counters, the
  unique sets, the other frequency counters, the recent attacks, the timeline, the map
  data and the alert history are the ones it was given.
\<close>

theorem C9_update_asn_stats_frame:
  "update_asn_stats e m =
     m\<lparr>organizations := organizations (update_asn_stats e m),
       asns := asns (update_asn_stats e m),
       stats_dirty := stats_dirty (update_asn_stats e m)\<rparr>
   \<and> total_connections (update_asn_stats e m) = total_connections m
   \<and> failed_logins (update_asn_stats e m) = failed_logins m
   \<and> successful_logins (update_asn_stats e m) = successful_logins m
   \<and> commands_executed (update_asn_stats e m) = commands_executed m
   \<and> unique_ips (update_asn_stats e m) = unique_ips m
   \<and> unique_passwords (update_asn_stats e m) = unique_passwords m
   \<and> unique_users (update_asn_stats e m) = unique_users m
   \<and> recent_attacks (update_asn_stats e m) = recent_attacks m
   \<and> top_ips (update_asn_stats e m) = top_ips m
   \<and> top_passwords (update_asn_stats e m) = top_passwords m
   \<and> top_users (update_asn_stats e m) = top_users m
   \<and> top_commands (update_asn_stats e m) = top_commands m
   \<and> attack_timeline (update_asn_stats e m) = attack_timeline m
   \<and> countries (update_asn_stats e m) = countries m
   \<and> markers (update_asn_stats e m) = markers m
   \<and> heatpoints (update_asn_stats e m) = heatpoints m
   \<and> alerts (update_asn_stats e m) = alerts m
   \<and> alerted_ips (update_asn_stats e m) = alerted_ips m
   \<and> alerted_countries (update_asn_stats e m) = alerted_countries m
   \<and> alerted_orgs (update_asn_stats e m) = alerted_orgs m"
  by (simp add: update_asn_stats_def Let_def)

text \<open>
  Claim C8: when the log file is smaller than the saved offset (a saved offset of 100
  and a size of 40 in the claim), the next poll detects the rotation and resets the
  saved offset to 0; the handle is opened anew at offset 0 and the read returns the lines
  of the whole current content, after which the saved offset is the size of the file.
\<close>

theorem C8_rotation_on_shrink:
  assumes "path_inode os = Some i" "\<not> stat_raises os" "\<not> open_raises os"
    "length (inode_content os i) < last_position m"
  shows "detect_log_rotation os m = (True, m\<lparr>last_position := 0, last_inode := Some i\<rparr>) \<and>
    poll_read os m fh = (Lines (split_lines [] (inode_content os i)),
       m\<lparr>last_position := length (inode_content os i), last_inode := Some i\<rparr>,
       Some \<lparr>h_inode = i, h_pos = length (inode_content os i)\<rparr>)"
proof -
  have d: "detect_log_rotation os m = (True, m\<lparr>last_position := 0, last_inode := Some i\<rparr>)"
    using assms by (simp add: detect_log_rotation_def os_stat_def)
  show ?thesis unfolding poll_read_def d using assms(1,3)
    by (simp add: readlines_def Let_def)
qed

theorem C8_rotation_on_shrink_witness:
  "length (''rotated log: line 1'' @ [CHR 0x0A] @ ''rotated log: line 2'' @ [CHR 0x0A]) = 40 \<and>
   last_position ((CowrieMonitor_init default_cfg)\<lparr>last_position := 100, last_inode := Some 7\<rparr>) = 100 \<and>
   fst (detect_log_rotation
     \<lparr>path_inode = Some 7,
      inode_content = (\<lambda>j. ''rotated log: line 1'' @ [CHR 0x0A] @ ''rotated log: line 2'' @ [CHR 0x0A]),
      stat_raises = False, open_raises = False\<rparr>
     ((CowrieMonitor_init default_cfg)\<lparr>last_position := 100, last_inode := Some 7\<rparr>)) = True \<and>
   last_position (snd (detect_log_rotation
     \<lparr>path_inode = Some 7,
      inode_content = (\<lambda>j. ''rotated log: line 1'' @ [CHR 0x0A] @ ''rotated log: line 2'' @ [CHR 0x0A]),
      stat_raises = False, open_raises = False\<rparr>
     ((CowrieMonitor_init default_cfg)\<lparr>last_position := 100, last_inode := Some 7\<rparr>))) = 0 \<and>
   fst (poll_read
     \<lparr>path_inode = Some 7,
      inode_content = (\<lambda>j. ''rotated log: line 1'' @ [CHR 0x0A] @ ''rotated log: line 2'' @ [CHR 0x0A]),
      stat_raises = False, open_raises = False\<rparr>
     ((CowrieMonitor_init default_cfg)\<lparr>last_position := 100, last_inode := Some 7\<rparr>)
     (Some \<lparr>h_inode = 7, h_pos = 100\<rparr>))
   = Lines [''rotated log: line 1'' @ [CHR 0x0A], ''rotated log: line 2'' @ [CHR 0x0A]]"
  using C8_rotation_on_shrink
    [of "\<lparr>path_inode = Some 7,
      inode_content = (\<lambda>j. ''rotated log: line 1'' @ [CHR 0x0A] @ ''rotated log: line 2'' @ [CHR 0x0A]),
      stat_raises = False, open_raises = False\<rparr>" 7
      "(CowrieMonitor_init default_cfg)\<lparr>last_position := 100, last_inode := Some 7\<rparr>"
      "Some \<lparr>h_inode = 7, h_pos = 100\<rparr>"]
  by simp

section \<open>Properties of the update path\<close>

subsection \<open>What one update does to the address counter and the alerted addresses\<close>

lemma enriched_fields:
  "eventid (enriched svc e) = eventid e" "src_ip (enriched svc e) = src_ip e"
  "password (enriched svc e) = password e" "username (enriched svc e) = username e"
  by (simp_all add: enriched_def asn_enrich_log_entry_def geoip_enrich_log_entry_def split: option.splits)

lemma check_alerts_fst:
  "fst (check_alerts now e m) =
     fst (alert_high_frequency now e m)
     @ fst (alert_long_password now e (snd (alert_high_frequency now e m)))
     @ fst (alert_country now e (snd (alert_long_password now e (snd (alert_high_frequency now e m)))))
     @ fst (alert_organization now e (snd (alert_country now e (snd (alert_long_password now e (snd (alert_high_frequency now e m)))))))"
  by (simp add: check_alerts_def split_beta Let_def)

lemma check_alerts_snd:
  "snd (check_alerts now e m) =
     snd (alert_organization now e (snd (alert_country now e (snd (alert_long_password now e (snd (alert_high_frequency now e m)))))))"
  by (simp add: check_alerts_def split_beta Let_def)

lemma alert_high_frequency_fst:
  "fst (alert_high_frequency now e m) =
     (if eventid e = Some ''cowrie.session.connect''
         \<and> bc_get (top_ips m) (Some (or_default (src_ip e) [])) > 10
         \<and> \<not> bs_contains (alerted_ips m) (or_default (src_ip e) [])
      then [\<lparr>al_timestamp = now, al_level = ''HIGH'',
             al_message = ''High frequency attacks from '' @ or_default (src_ip e) [],
             al_ip = src_ip e, al_country = geo_country_or e ''Unknown'',
             al_organization = asn_organization_or e ''Unknown''\<rparr>]
      else [])"
  by (simp add: alert_high_frequency_def add_alert_def Let_def)

lemma alert_high_frequency_snd:
  "top_ips (snd (alert_high_frequency now e m)) = top_ips m"
  "alerted_ips (snd (alert_high_frequency now e m)) =
     (if eventid e = Some ''cowrie.session.connect''
         \<and> bc_get (top_ips m) (Some (or_default (src_ip e) [])) > 10
         \<and> \<not> bs_contains (alerted_ips m) (or_default (src_ip e) [])
      then add (alerted_ips m) (or_default (src_ip e) []) else alerted_ips m)"
  by (simp_all add: alert_high_frequency_def add_alert_def Let_def)

lemma alert_long_password_fst:
  "fst (alert_long_password now e m) =
     (if eventid e = Some ''cowrie.login.success'' \<and> 20 < length (or_default (password e) [])
      then [\<lparr>al_timestamp = now, al_level = ''MEDIUM'',
             al_message = ''Suspicious long password from '' @ or_default (src_ip e) [],
             al_ip = src_ip e, al_country = geo_country_or e ''Unknown'',
             al_organization = asn_organization_or e ''Unknown''\<rparr>]
      else [])"
  by (auto simp: alert_long_password_def add_alert_def Let_def)

lemma alert_long_password_snd:
  "top_ips (snd (alert_long_password now e m)) = top_ips m"
  "alerted_ips (snd (alert_long_password now e m)) = alerted_ips m"
  by (simp_all add: alert_long_password_def add_alert_def Let_def)

lemma alert_country_snd:
  "top_ips (snd (alert_country now e m)) = top_ips m"
  "alerted_ips (snd (alert_country now e m)) = alerted_ips m"
  by (simp_all add: alert_country_def add_alert_def Let_def)

lemma alert_organization_snd:
  "top_ips (snd (alert_organization now e m)) = top_ips m"
  "alerted_ips (snd (alert_organization now e m)) = alerted_ips m"
  by (simp_all add: alert_organization_def add_alert_def Let_def)

lemma alert_country_level:
  "a \<in> set (fst (alert_country now e m)) \<Longrightarrow>
     al_level a = ''MEDIUM'' \<and> take 5 (al_message a) = ''High ''"
  by (auto simp: alert_country_def add_alert_def Let_def split: if_splits)

lemma alert_organization_level:
  "a \<in> set (fst (alert_organization now e m)) \<Longrightarrow>
     al_level a = ''MEDIUM'' \<and> take 5 (al_message a) = ''High ''"
  by (auto simp: alert_organization_def add_alert_def Let_def split: if_splits)


lemma dispatch_event_connect:
  "top_ips (dispatch_event (Some ''cowrie.session.connect'') ip e m) = snd (increment (top_ips m) ip)"
  "alerted_ips (dispatch_event (Some ''cowrie.session.connect'') ip e m) = alerted_ips m"
  by (simp_all add: dispatch_event_def)

lemma update_map_data_Inr:
  "map_data_ok e \<Longrightarrow> \<exists>m2. update_map_data evid e m = Inr m2 \<and> top_ips m2 = top_ips m \<and> alerted_ips m2 = alerted_ips m"
  by (auto simp: update_map_data_def map_data_ok_def truthy_num_def split: option.splits)

lemma update_map_data_Inl:
  "\<not> map_data_ok e \<Longrightarrow> \<exists>err. update_map_data evid e m = Inl err"
  by (auto simp: update_map_data_def map_data_ok_def truthy_num_def truthy_geo_def split: option.splits)

lemma update_tail_fields:
  "top_ips (update_country_stats e m) = top_ips m"
  "alerted_ips (update_country_stats e m) = alerted_ips m"
  "top_ips (update_org_stats e m) = top_ips m"
  "alerted_ips (update_org_stats e m) = alerted_ips m"
  "top_ips (update_timeline evid ip e m) = top_ips m"
  "alerted_ips (update_timeline evid ip e m) = alerted_ips m"
  "top_ips (enqueue_enrichment e m) = top_ips m"
  "alerted_ips (enqueue_enrichment e m) = alerted_ips m"
  by (simp_all add: update_country_stats_def update_org_stats_def update_timeline_def
      enqueue_enrichment_def Let_def split: option.splits)

lemma update_stats_ok:
  assumes "update_map_data (eventid e0) (enriched svc e0) (dispatch_event (eventid e0) (src_ip e0) (enriched svc e0) m) = Inr m2"
  shows "update_stats svc now e0 m =
     (Inr (fst (check_alerts now (enriched svc e0)
            ((update_timeline (eventid e0) (src_ip e0) (enriched svc e0)
               (update_org_stats (enriched svc e0) (update_country_stats (enriched svc e0) m2)))\<lparr>stats_dirty := True\<rparr>))),
      enqueue_enrichment (enriched svc e0)
        (snd (check_alerts now (enriched svc e0)
            ((update_timeline (eventid e0) (src_ip e0) (enriched svc e0)
               (update_org_stats (enriched svc e0) (update_country_stats (enriched svc e0) m2)))\<lparr>stats_dirty := True\<rparr>))))"
  using assms by (simp add: update_stats_def enriched_def Let_def split_beta)

lemma update_stats_raises:
  assumes "update_map_data (eventid e0) (enriched svc e0) (dispatch_event (eventid e0) (src_ip e0) (enriched svc e0) m) = Inl err"
  shows "update_stats svc now e0 m = (Inl err, dispatch_event (eventid e0) (src_ip e0) (enriched svc e0) m)"
  using assms by (simp add: update_stats_def enriched_def Let_def split_beta)


lemma high_frequency_messages_append:
  "high_frequency_messages (xs @ ys) = high_frequency_messages xs @ high_frequency_messages ys"
  by (simp add: high_frequency_messages_def)

lemma high_frequency_messages_medium:
  "\<forall>a\<in>set xs. al_level a = ''MEDIUM'' \<Longrightarrow> high_frequency_messages xs = []"
  by (induction xs) (auto simp: high_frequency_messages_def)

lemma hf_long_password: "high_frequency_messages (fst (alert_long_password now e m)) = []"
  by (simp add: alert_long_password_fst high_frequency_messages_def)

lemma hf_country: "high_frequency_messages (fst (alert_country now e m)) = []"
  by (rule high_frequency_messages_medium) (simp add: alert_country_level)

lemma hf_organization: "high_frequency_messages (fst (alert_organization now e m)) = []"
  by (rule high_frequency_messages_medium) (simp add: alert_organization_level)

lemma hf_check_alerts:
  "high_frequency_messages (fst (check_alerts now e m)) =
     high_frequency_messages (fst (alert_high_frequency now e m))"
  by (simp add: check_alerts_fst high_frequency_messages_append hf_long_password hf_country hf_organization)

lemma check_alerts_fields:
  "top_ips (snd (check_alerts now e m)) = top_ips m"
  "alerted_ips (snd (check_alerts now e m)) = alerted_ips (snd (alert_high_frequency now e m))"
  by (simp_all add: check_alerts_snd alert_organization_snd alert_country_snd
      alert_long_password_snd alert_high_frequency_snd(1))

lemma update_stats_connect:
  assumes "eventid e0 = Some ''cowrie.session.connect''" "src_ip e0 = Some a"
    "map_data_ok (enriched svc e0)"
  shows "\<exists>emitted m'. update_stats svc now e0 m = (Inr emitted, m')
     \<and> top_ips m' = snd (increment (top_ips m) (Some a))
     \<and> alerted_ips m' =
         (if 10 < bc_get (snd (increment (top_ips m) (Some a))) (Some a) \<and> \<not> bs_contains (alerted_ips m) a
          then add (alerted_ips m) a else alerted_ips m)
     \<and> high_frequency_messages emitted =
         (if 10 < bc_get (snd (increment (top_ips m) (Some a))) (Some a) \<and> \<not> bs_contains (alerted_ips m) a
          then [''High frequency attacks from '' @ a] else [])"
proof -
  let ?e = "enriched svc e0"
  let ?m1 = "dispatch_event (eventid e0) (src_ip e0) ?e m"
  obtain m2 where m2: "update_map_data (eventid e0) ?e ?m1 = Inr m2"
    and t2: "top_ips m2 = top_ips ?m1" and a2: "alerted_ips m2 = alerted_ips ?m1"
    using update_map_data_Inr[OF assms(3)] by blast
  let ?m6 = "(update_timeline (eventid e0) (src_ip e0) ?e
               (update_org_stats ?e (update_country_stats ?e m2)))\<lparr>stats_dirty := True\<rparr>"
  have t6: "top_ips ?m6 = snd (increment (top_ips m) (Some a))"
    by (simp add: update_tail_fields t2 assms(1,2) dispatch_event_connect)
  have a6: "alerted_ips ?m6 = alerted_ips m"
    by (simp add: update_tail_fields a2 assms(1,2) dispatch_event_connect)
  have ev: "eventid ?e = Some ''cowrie.session.connect''" and ip: "src_ip ?e = Some a"
    by (simp_all add: enriched_fields assms(1,2))
  have u: "update_stats svc now e0 m =
     (Inr (fst (check_alerts now ?e ?m6)), enqueue_enrichment ?e (snd (check_alerts now ?e ?m6)))"
    using m2 by (rule update_stats_ok)
  have "top_ips (enqueue_enrichment ?e (snd (check_alerts now ?e ?m6))) = snd (increment (top_ips m) (Some a))"
    by (simp add: update_tail_fields check_alerts_fields t6)
  moreover have "alerted_ips (enqueue_enrichment ?e (snd (check_alerts now ?e ?m6))) =
         (if 10 < bc_get (snd (increment (top_ips m) (Some a))) (Some a) \<and> \<not> bs_contains (alerted_ips m) a
          then add (alerted_ips m) a else alerted_ips m)"
    by (simp add: update_tail_fields(8) check_alerts_fields(2) alert_high_frequency_snd(2) ev ip t6 a6 or_default_def)
  moreover have "high_frequency_messages (fst (check_alerts now ?e ?m6)) =
         (if 10 < bc_get (snd (increment (top_ips m) (Some a))) (Some a) \<and> \<not> bs_contains (alerted_ips m) a
          then [''High frequency attacks from '' @ a] else [])"
    unfolding hf_check_alerts alert_high_frequency_fst
    by (simp add: ev ip t6 a6 or_default_def high_frequency_messages_def)
  ultimately show ?thesis using u by simp
qed


subsection \<open>Which rule an alert comes from\<close>

lemma lp_not_high: "is_long_password_alert a \<Longrightarrow> al_level a \<noteq> ''HIGH''"
  by (auto simp: is_long_password_alert_def)

lemma lp_not_High_prefix: "take 5 (al_message a) = ''High '' \<Longrightarrow> \<not> is_long_password_alert a"
proof
  assume h: "take 5 (al_message a) = ''High ''" and l: "is_long_password_alert a"
  from l have "take 5 (take 30 (al_message a)) = take 5 ''Suspicious long password from ''"
    by (simp add: is_long_password_alert_def)
  then have "take 5 (al_message a) = ''Suspi''" by (simp add: take_take)
  with h show False by simp
qed

lemma lp_filter_high_frequency:
  "filter is_long_password_alert (fst (alert_high_frequency now e m)) = []"
  by (auto simp: alert_high_frequency_fst is_long_password_alert_def)

lemma lp_filter_country:
  "filter is_long_password_alert (fst (alert_country now e m)) = []"
  by (auto simp: filter_empty_conv dest: alert_country_level lp_not_High_prefix)

lemma lp_filter_organization:
  "filter is_long_password_alert (fst (alert_organization now e m)) = []"
  by (auto simp: filter_empty_conv dest: alert_organization_level lp_not_High_prefix)

lemma lp_filter_long_password:
  "length (filter is_long_password_alert (fst (alert_long_password now e m))) =
     (if eventid e = Some ''cowrie.login.success'' \<and> 20 < length (or_default (password e) []) then 1 else 0)"
  by (simp add: alert_long_password_fst is_long_password_alert_def)

lemma lp_check_alerts:
  "length (filter is_long_password_alert (fst (check_alerts now e m))) =
     (if eventid e = Some ''cowrie.login.success'' \<and> 20 < length (or_default (password e) []) then 1 else 0)"
  unfolding check_alerts_fst filter_append length_append
    lp_filter_high_frequency lp_filter_country lp_filter_organization lp_filter_long_password
  by simp

subsection \<open>Connections from one address, from a fresh monitor\<close>

lemma increment_single:
  "1 \<le> M \<Longrightarrow> increment \<lparr>bc_data = (if k = 0 then [] else [(x, int k)]), bc_maxsize = M\<rparr> x
     = (int k + 1, \<lparr>bc_data = [(x, int k + 1)], bc_maxsize = M\<rparr>)"
  by (simp add: increment_def maybe_evict_def Let_def dict_get_def)

lemma connect_step_single_address:
  assumes "eventid e0 = Some ''cowrie.session.connect''" "src_ip e0 = Some a"
    "map_data_ok (enriched svc e0)" "1 \<le> M"
    "top_ips m = \<lparr>bc_data = (if k = 0 then [] else [(Some a, int k)]), bc_maxsize = M\<rparr>"
    "alerted_ips m = \<lparr>bs_data = (if 11 \<le> k then {|a|} else {||}), bs_maxsize = 10000, bs_overflow_count = 0\<rparr>"
  shows "\<exists>emitted m'. update_stats svc now e0 m = (Inr emitted, m')
     \<and> top_ips m' = \<lparr>bc_data = (if Suc k = 0 then [] else [(Some a, int (Suc k))]), bc_maxsize = M\<rparr>
     \<and> alerted_ips m' = \<lparr>bs_data = (if 11 \<le> Suc k then {|a|} else {||}), bs_maxsize = 10000, bs_overflow_count = 0\<rparr>
     \<and> high_frequency_messages emitted = (if k = 10 then [''High frequency attacks from '' @ a] else [])"
proof -
  have inc: "snd (increment (top_ips m) (Some a)) = \<lparr>bc_data = [(Some a, int k + 1)], bc_maxsize = M\<rparr>"
    unfolding assms(5) using increment_single[OF assms(4), of k "Some a"] by simp
  have g: "bc_get (snd (increment (top_ips m) (Some a))) (Some a) = int k + 1"
    unfolding inc by (simp add: bc_get_def dict_get_def)
  have fire: "(10 < bc_get (snd (increment (top_ips m) (Some a))) (Some a) \<and> \<not> bs_contains (alerted_ips m) a)
      \<longleftrightarrow> k = 10"
    unfolding g assms(6) by (auto simp: bs_contains_def)
  have ad: "k = 10 \<Longrightarrow> add (alerted_ips m) a = \<lparr>bs_data = {|a|}, bs_maxsize = 10000, bs_overflow_count = 0\<rparr>"
    unfolding assms(6) by (simp add: add_def fcard_fempty)
  obtain emitted m' where u: "update_stats svc now e0 m = (Inr emitted, m')"
     and t: "top_ips m' = snd (increment (top_ips m) (Some a))"
     and al: "alerted_ips m' =
         (if 10 < bc_get (snd (increment (top_ips m) (Some a))) (Some a) \<and> \<not> bs_contains (alerted_ips m) a
          then add (alerted_ips m) a else alerted_ips m)"
     and hf: "high_frequency_messages emitted =
         (if 10 < bc_get (snd (increment (top_ips m) (Some a))) (Some a) \<and> \<not> bs_contains (alerted_ips m) a
          then [''High frequency attacks from '' @ a] else [])"
    using update_stats_connect[OF assms(1,2,3), of now m] by blast
  have t': "top_ips m' = \<lparr>bc_data = (if Suc k = 0 then [] else [(Some a, int (Suc k))]), bc_maxsize = M\<rparr>"
    unfolding t inc by (simp add: add.commute)
  have al': "alerted_ips m' = \<lparr>bs_data = (if 11 \<le> Suc k then {|a|} else {||}), bs_maxsize = 10000, bs_overflow_count = 0\<rparr>"
  proof -
    have al2: "alerted_ips m' = (if k = 10 then add (alerted_ips m) a else alerted_ips m)"
      by (simp only: al fire)
    show ?thesis
    proof (cases "k = 10")
      case True
      then show ?thesis unfolding al2 using ad by simp
    next
      case False
      then show ?thesis unfolding al2 assms(6) by simp
    qed
  qed
  have hf': "high_frequency_messages emitted = (if k = 10 then [''High frequency attacks from '' @ a] else [])"
    by (simp only: hf fire)
  show ?thesis using u t' al' hf' by blast
qed

lemma feed_single_address:
  assumes "1 \<le> M"
    "\<forall>ne\<in>set es. eventid (snd ne) = Some ''cowrie.session.connect'' \<and> src_ip (snd ne) = Some a
        \<and> map_data_ok (enriched svc (snd ne))"
    "top_ips m = \<lparr>bc_data = (if k = 0 then [] else [(Some a, int k)]), bc_maxsize = M\<rparr>"
    "alerted_ips m = \<lparr>bs_data = (if 11 \<le> k then {|a|} else {||}), bs_maxsize = 10000, bs_overflow_count = 0\<rparr>"
  shows "fst (feed svc es m) = None \<and>
     map high_frequency_messages (fst (snd (feed svc es m))) =
       map (\<lambda>i. if k + i = 10 then [''High frequency attacks from '' @ a] else []) [0..<length es]"
  using assms(2,3,4)
proof (induction es arbitrary: k m)
  case Nil
  then show ?case by simp
next
  case (Cons ne es)
  obtain now e0 where ne: "ne = (now, e0)" by (cases ne)
  have e0: "eventid e0 = Some ''cowrie.session.connect''" "src_ip e0 = Some a" "map_data_ok (enriched svc e0)"
    using Cons.prems(1) ne by auto
  obtain emitted m' where u: "update_stats svc now e0 m = (Inr emitted, m')"
     and t: "top_ips m' = \<lparr>bc_data = (if Suc k = 0 then [] else [(Some a, int (Suc k))]), bc_maxsize = M\<rparr>"
     and al: "alerted_ips m' = \<lparr>bs_data = (if 11 \<le> Suc k then {|a|} else {||}), bs_maxsize = 10000, bs_overflow_count = 0\<rparr>"
     and hf: "high_frequency_messages emitted = (if k = 10 then [''High frequency attacks from '' @ a] else [])"
    using connect_step_single_address[OF e0 assms(1) Cons.prems(2,3), of now] by blast
  have rest: "\<forall>ne\<in>set es. eventid (snd ne) = Some ''cowrie.session.connect'' \<and> src_ip (snd ne) = Some a
        \<and> map_data_ok (enriched svc (snd ne))" using Cons.prems(1) by simp
  have ih: "fst (feed svc es m') = None \<and>
     map high_frequency_messages (fst (snd (feed svc es m'))) =
       map (\<lambda>i. if Suc k + i = 10 then [''High frequency attacks from '' @ a] else []) [0..<length es]"
    using Cons.IH[OF rest t al] .
  have f: "feed svc (ne # es) m = (fst (feed svc es m'), emitted # fst (snd (feed svc es m')), snd (snd (feed svc es m')))"
    unfolding ne by (simp add: u split_beta)
  have m: "map (\<lambda>i. if k + i = 10 then [''High frequency attacks from '' @ a] else []) [0..<length (ne # es)]
     = (if k = 10 then [''High frequency attacks from '' @ a] else [])
       # map (\<lambda>i. if Suc k + i = 10 then [''High frequency attacks from '' @ a] else []) [0..<length es]"
    by (simp add: upt_conv_Cons map_Suc_upt[symmetric] del: upt_Suc)
  show ?case unfolding f m using ih hf by simp
qed

section \<open>The alert rules\<close>

text \<open>
  Claim C6: the long-password rule is not de-duplicated and its threshold is strict.
  For every state, a login-succeeded record with a password of more than 20 characters
  makes \<open>check_alerts\<close> emit exactly one \<open>MEDIUM\<close> long-password alert, and a password of
  20 characters or fewer none; the same holds for the alerts \<open>update_stats\<close> emits for
  the record, and \<open>update_stats\<close> does emit them unless the marker raises.  As this holds
  in every state, two such records emit two alerts.
\<close>

theorem C6_long_password_alert:
  assumes "eventid e = Some ''cowrie.login.success''" "password e = Some p"
  shows "length (filter is_long_password_alert (fst (check_alerts now e m))) = (if 20 < length p then 1 else 0)
     \<and> (\<forall>emitted. fst (update_stats svc now e m) = Inr emitted \<longrightarrow>
           length (filter is_long_password_alert emitted) = (if 20 < length p then 1 else 0))
     \<and> (map_data_ok (enriched svc e) \<longrightarrow> (\<exists>emitted. fst (update_stats svc now e m) = Inr emitted))"
proof (intro conjI allI impI)
  show "length (filter is_long_password_alert (fst (check_alerts now e m))) = (if 20 < length p then 1 else 0)"
    by (simp add: lp_check_alerts assms or_default_def)
next
  fix emitted assume r: "fst (update_stats svc now e m) = Inr emitted"
  let ?m1 = "dispatch_event (eventid e) (src_ip e) (enriched svc e) m"
  show "length (filter is_long_password_alert emitted) = (if 20 < length p then 1 else 0)"
  proof (cases "update_map_data (eventid e) (enriched svc e) ?m1")
    case (Inl err)
    then show ?thesis using r update_stats_raises[OF Inl, of now] by simp
  next
    case (Inr m2)
    from update_stats_ok[OF Inr, of now] r
    have "emitted = fst (check_alerts now (enriched svc e)
            ((update_timeline (eventid e) (src_ip e) (enriched svc e)
               (update_org_stats (enriched svc e) (update_country_stats (enriched svc e) m2)))\<lparr>stats_dirty := True\<rparr>))"
      by simp
    then show ?thesis by (simp only: lp_check_alerts) (simp add: enriched_fields assms or_default_def)
  qed
next
  assume "map_data_ok (enriched svc e)"
  then obtain m2 where "update_map_data (eventid e) (enriched svc e)
      (dispatch_event (eventid e) (src_ip e) (enriched svc e) m) = Inr m2"
    using update_map_data_Inr by blast
  from update_stats_ok[OF this, of now] show "\<exists>emitted. fst (update_stats svc now e m) = Inr emitted"
    by simp
qed



theorem C6_long_password_alert_witness:
  "length ''correct-horse-battery'' = 21 \<and> length ''correct-horse-batter'' = 20 \<and>
   map (\<lambda>emitted. length (filter is_long_password_alert emitted))
     (fst (snd (feed no_services
        [(''t1'', login_success_entry ''203.0.113.7'' ''root'' ''correct-horse-battery''),
         (''t2'', login_success_entry ''203.0.113.7'' ''root'' ''correct-horse-battery''),
         (''t3'', login_success_entry ''203.0.113.7'' ''root'' ''correct-horse-batter'')]
        (CowrieMonitor_init default_cfg)))) = [1, 1, 0]"
proof -
  let ?e21 = "login_success_entry ''203.0.113.7'' ''root'' ''correct-horse-battery''"
  let ?e20 = "login_success_entry ''203.0.113.7'' ''root'' ''correct-horse-batter''"
  have e21: "eventid ?e21 = Some ''cowrie.login.success''" "password ?e21 = Some ''correct-horse-battery''"
    and e20: "eventid ?e20 = Some ''cowrie.login.success''" "password ?e20 = Some ''correct-horse-batter''"
    by (simp_all add: login_success_entry_def)
  have ok: "map_data_ok (enriched no_services ?e21)" "map_data_ok (enriched no_services ?e20)"
    by (simp_all add: map_data_ok_def enriched_def no_services_def login_success_entry_def
        asn_enrich_log_entry_def geoip_enrich_log_entry_def)
  let ?m0 = "CowrieMonitor_init default_cfg"
  obtain a1 m1 where u1: "update_stats no_services ''t1'' ?e21 ?m0 = (Inr a1, m1)"
    using C6_long_password_alert [OF e21, of "''t1''" ?m0 no_services] ok(1)
    by (cases "update_stats no_services ''t1'' ?e21 ?m0") auto
  obtain a2 m2 where u2: "update_stats no_services ''t2'' ?e21 m1 = (Inr a2, m2)"
    using C6_long_password_alert [OF e21, of "''t2''" m1 no_services] ok(1)
    by (cases "update_stats no_services ''t2'' ?e21 m1") auto
  obtain a3 m3 where u3: "update_stats no_services ''t3'' ?e20 m2 = (Inr a3, m3)"
    using C6_long_password_alert [OF e20, of "''t3''" m2 no_services] ok(2)
    by (cases "update_stats no_services ''t3'' ?e20 m2") auto
  have n1: "length (filter is_long_password_alert a1) = 1"
    using C6_long_password_alert [OF e21, of "''t1''" ?m0 no_services] u1 by simp
  have n2: "length (filter is_long_password_alert a2) = 1"
    using C6_long_password_alert [OF e21, of "''t2''" m1 no_services] u2 by simp
  have n3: "length (filter is_long_password_alert a3) = 0"
    using C6_long_password_alert [OF e20, of "''t3''" m2 no_services] u3 by simp
  have "fst (snd (feed no_services [(''t1'', ?e21), (''t2'', ?e21), (''t3'', ?e20)] ?m0)) = [a1, a2, a3]"
    by (simp add: u1 u2 u3)
  then show ?thesis using n1 n2 n3 by simp
qed

text \<open>
  Claim C5: starting from a fresh monitor (whose address counter has room for at least
  one key), a run of connect records with the same source address emits a high-frequency
  alert while the 11th record is processed, where the count of the address is 11 and
  first exceeds 10, and for no other record: none for the first ten, none for the 12th
  or any later one.  The records may differ in their other fields; their update must
  not raise.
\<close>

theorem C5_high_frequency_alert_once:
  assumes "1 \<le> MAX_TOP_ENTRIES c"
    "\<forall>ne\<in>set es. eventid (snd ne) = Some ''cowrie.session.connect'' \<and> src_ip (snd ne) = Some a
        \<and> map_data_ok (enriched svc (snd ne))"
  shows "fst (feed svc es (CowrieMonitor_init c)) = None \<and>
     map high_frequency_messages (fst (snd (feed svc es (CowrieMonitor_init c)))) =
       map (\<lambda>i. if i = 10 then [''High frequency attacks from '' @ a] else []) [0..<length es]"
  using feed_single_address[OF assms(1,2), of "CowrieMonitor_init c" 0]
  by (simp add: CowrieMonitor_init_def BoundedCounter_init_def BoundedSet_init_def)

theorem C5_high_frequency_alert_once_witness:
  "1 \<le> MAX_TOP_ENTRIES default_cfg \<and>
   fst (feed no_services (replicate 12 (''t'', connect_entry ''203.0.113.7'')) (CowrieMonitor_init default_cfg)) = None \<and>
   map high_frequency_messages
     (fst (snd (feed no_services (replicate 12 (''t'', connect_entry ''203.0.113.7''))
        (CowrieMonitor_init default_cfg))))
   = [[], [], [], [], [], [], [], [], [], [], [''High frequency attacks from 203.0.113.7''], []]"
proof -
  have h1: "1 \<le> MAX_TOP_ENTRIES default_cfg" by (simp add: default_cfg_def)
  have h2: "\<forall>ne\<in>set (replicate 12 (''t'', connect_entry ''203.0.113.7'')).
      eventid (snd ne) = Some ''cowrie.session.connect'' \<and> src_ip (snd ne) = Some ''203.0.113.7''
        \<and> map_data_ok (enriched no_services (snd ne))"
    by (simp add: connect_entry_def map_data_ok_def enriched_def no_services_def
        asn_enrich_log_entry_def geoip_enrich_log_entry_def)
  have u: "[0..<12] = [0, 1, 2, 3, 4, 5, 6, 7, 8, 9, 10, 11::nat]" by (simp add: upt_rec)
  show ?thesis using C5_high_frequency_alert_once [OF h1 h2] h1 by (simp add: u)
qed

section \<open>Alerts when the set of alerted addresses is full\<close>

subsection \<open>Bursts of connections from one address\<close>

lemma dict_set_append_last:
  "k \<notin> set (dict_keys D) \<Longrightarrow> dict_set (D @ [(k, v)]) k w = D @ [(k, w)]"
  by (induction D) (auto simp: dict_keys_def)

lemma dict_get_append_last:
  "k \<notin> set (dict_keys D) \<Longrightarrow> dict_get (D @ [(k, v)]) k dflt = v"
  by (induction D) (auto simp: dict_keys_def dict_get_def)

lemma increment_tracked:
  assumes "x \<notin> set (dict_keys D)" "int (length D) < M"
  shows "increment \<lparr>bc_data = D @ (if k = 0 then [] else [(x, int k)]), bc_maxsize = M\<rparr> x
     = (int k + 1, \<lparr>bc_data = D @ [(x, int k + 1)], bc_maxsize = M\<rparr>)"
proof (cases "k = 0")
  case True
  then show ?thesis using assms
    by (simp add: increment_def Let_def dict_set_fresh dict_get_fresh dict_get_append_last maybe_evict_def)
next
  case False
  then show ?thesis using assms
    by (simp add: increment_def Let_def dict_set_append_last dict_get_append_last maybe_evict_def)
qed

lemma connect_entry_facts:
  "eventid (connect_entry a) = Some ''cowrie.session.connect''" "src_ip (connect_entry a) = Some a"
  "map_data_ok (enriched no_services (connect_entry a))"
  by (simp_all add: connect_entry_def map_data_ok_def enriched_def no_services_def
      asn_enrich_log_entry_def geoip_enrich_log_entry_def)

lemma connect_step_tracked:
  assumes "Some a \<notin> set (dict_keys D)" "int (length D) < M"
    "top_ips m = \<lparr>bc_data = D @ (if k = 0 then [] else [(Some a, int k)]), bc_maxsize = M\<rparr>"
  shows "\<exists>emitted m'. update_stats no_services now (connect_entry a) m = (Inr emitted, m')
     \<and> top_ips m' = \<lparr>bc_data = D @ [(Some a, int (Suc k))], bc_maxsize = M\<rparr>
     \<and> alerted_ips m' = (if 10 \<le> k \<and> \<not> bs_contains (alerted_ips m) a then add (alerted_ips m) a else alerted_ips m)
     \<and> high_frequency_messages emitted =
          (if 10 \<le> k \<and> \<not> bs_contains (alerted_ips m) a then [''High frequency attacks from '' @ a] else [])"
proof -
  have inc: "snd (increment (top_ips m) (Some a)) = \<lparr>bc_data = D @ [(Some a, int k + 1)], bc_maxsize = M\<rparr>"
    unfolding assms(3) using increment_tracked[OF assms(1,2), of k] by simp
  have g: "bc_get (snd (increment (top_ips m) (Some a))) (Some a) = int k + 1"
    unfolding inc using assms(1) by (simp add: bc_get_def dict_get_append_last)
  have fire: "(10 < bc_get (snd (increment (top_ips m) (Some a))) (Some a) \<and> \<not> bs_contains (alerted_ips m) a)
      \<longleftrightarrow> (10 \<le> k \<and> \<not> bs_contains (alerted_ips m) a)"
    unfolding g by auto
  obtain emitted m' where u: "update_stats no_services now (connect_entry a) m = (Inr emitted, m')"
     and t: "top_ips m' = snd (increment (top_ips m) (Some a))"
     and al: "alerted_ips m' =
         (if 10 < bc_get (snd (increment (top_ips m) (Some a))) (Some a) \<and> \<not> bs_contains (alerted_ips m) a
          then add (alerted_ips m) a else alerted_ips m)"
     and hf: "high_frequency_messages emitted =
         (if 10 < bc_get (snd (increment (top_ips m) (Some a))) (Some a) \<and> \<not> bs_contains (alerted_ips m) a
          then [''High frequency attacks from '' @ a] else [])"
    using update_stats_connect[OF connect_entry_facts(1)[of a] connect_entry_facts(2)[of a] connect_entry_facts(3)[of a], where now=now and m=m] by blast
  have t': "top_ips m' = \<lparr>bc_data = D @ [(Some a, int (Suc k))], bc_maxsize = M\<rparr>"
    unfolding t inc by (simp add: add.commute)
  have al': "alerted_ips m' = (if 10 \<le> k \<and> \<not> bs_contains (alerted_ips m) a then add (alerted_ips m) a else alerted_ips m)"
    by (simp only: al fire)
  have hf': "high_frequency_messages emitted =
          (if 10 \<le> k \<and> \<not> bs_contains (alerted_ips m) a then [''High frequency attacks from '' @ a] else [])"
    by (simp only: hf fire)
  show ?thesis using u t' al' hf' by blast
qed


lemma map_upt_Suc_shift:
  "map f [0..<Suc n] = f 0 # map (\<lambda>i. f (Suc i)) [0..<n]"
  by (simp add: upt_conv_Cons map_Suc_upt[symmetric] del: upt_Suc)

lemma feed_Cons_ok:
  "update_stats svc now e m = (Inr emitted, m1) \<Longrightarrow> feed svc es m1 = (r, out, m2) \<Longrightarrow>
   feed svc ((now, e) # es) m = (r, emitted # out, m2)"
  by simp

lemma burst_room:
  assumes "Some a \<notin> set (dict_keys D)" "int (length D) < M"
    "a |\<notin>| bs_data A" "int (fcard (bs_data A)) < bs_maxsize A"
    "top_ips m = \<lparr>bc_data = D @ (if k = 0 then [] else [(Some a, int k)]), bc_maxsize = M\<rparr>"
    "alerted_ips m = (if 11 \<le> k then A\<lparr>bs_data := finsert a (bs_data A)\<rparr> else A)"
  shows "\<exists>out m'. feed no_services (replicate n (now, connect_entry a)) m = (None, out, m')
     \<and> top_ips m' = \<lparr>bc_data = D @ (if k + n = 0 then [] else [(Some a, int (k + n))]), bc_maxsize = M\<rparr>
     \<and> alerted_ips m' = (if 11 \<le> k + n then A\<lparr>bs_data := finsert a (bs_data A)\<rparr> else A)
     \<and> map high_frequency_messages out =
          map (\<lambda>i. if k + i = 10 then [''High frequency attacks from '' @ a] else []) [0..<n]"
  using assms(5,6)
proof (induction n arbitrary: k m)
  case 0
  then show ?case by simp
next
  case (Suc n)
  obtain emitted m1 where u: "update_stats no_services now (connect_entry a) m = (Inr emitted, m1)"
     and t: "top_ips m1 = \<lparr>bc_data = D @ [(Some a, int (Suc k))], bc_maxsize = M\<rparr>"
     and al: "alerted_ips m1 = (if 10 \<le> k \<and> \<not> bs_contains (alerted_ips m) a then add (alerted_ips m) a else alerted_ips m)"
     and hf: "high_frequency_messages emitted =
          (if 10 \<le> k \<and> \<not> bs_contains (alerted_ips m) a then [''High frequency attacks from '' @ a] else [])"
    using connect_step_tracked[OF assms(1,2) Suc.prems(1), of now] by blast
  have fire: "(10 \<le> k \<and> \<not> bs_contains (alerted_ips m) a) \<longleftrightarrow> k = 10"
    unfolding Suc.prems(2) using assms(3) by (auto simp: bs_contains_def)
  have ad: "k = 10 \<Longrightarrow> add (alerted_ips m) a = A\<lparr>bs_data := finsert a (bs_data A)\<rparr>"
    unfolding Suc.prems(2) using assms(3,4) by (simp add: add_def)
  have al2: "alerted_ips m1 = (if k = 10 then add (alerted_ips m) a else alerted_ips m)"
    by (simp only: al fire)
  have al': "alerted_ips m1 = (if 11 \<le> Suc k then A\<lparr>bs_data := finsert a (bs_data A)\<rparr> else A)"
  proof (cases "k = 10")
    case True
    then show ?thesis unfolding al2 using ad by simp
  next
    case False
    then show ?thesis unfolding al2 Suc.prems(2) by simp
  qed
  have hf': "high_frequency_messages emitted = (if k = 10 then [''High frequency attacks from '' @ a] else [])"
    by (simp only: hf fire)
  have t': "top_ips m1 = \<lparr>bc_data = D @ (if Suc k = 0 then [] else [(Some a, int (Suc k))]), bc_maxsize = M\<rparr>"
    unfolding t by simp
  obtain out m' where f: "feed no_services (replicate n (now, connect_entry a)) m1 = (None, out, m')"
     and ft: "top_ips m' = \<lparr>bc_data = D @ (if Suc k + n = 0 then [] else [(Some a, int (Suc k + n))]), bc_maxsize = M\<rparr>"
     and fa: "alerted_ips m' = (if 11 \<le> Suc k + n then A\<lparr>bs_data := finsert a (bs_data A)\<rparr> else A)"
     and fo: "map high_frequency_messages out =
          map (\<lambda>i. if Suc k + i = 10 then [''High frequency attacks from '' @ a] else []) [0..<n]"
    using Suc.IH[OF t' al'] by blast
  have F: "feed no_services (replicate (Suc n) (now, connect_entry a)) m = (None, emitted # out, m')"
    using feed_Cons_ok[OF u f] by simp
  have O: "map high_frequency_messages (emitted # out) =
          map (\<lambda>i. if k + i = 10 then [''High frequency attacks from '' @ a] else []) [0..<Suc n]"
    unfolding map_upt_Suc_shift using hf' fo by simp
  show ?case using F ft fa O by (intro exI[of _ "emitted # out"] exI[of _ m']) simp
qed

lemma burst_full:
  assumes "Some a \<notin> set (dict_keys D)" "int (length D) < M"
    "top_ips m = \<lparr>bc_data = D @ (if k = 0 then [] else [(Some a, int k)]), bc_maxsize = M\<rparr>"
    "a |\<notin>| bs_data (alerted_ips m)" "\<not> int (fcard (bs_data (alerted_ips m))) < bs_maxsize (alerted_ips m)"
  shows "\<exists>out m'. feed no_services (replicate n (now, connect_entry a)) m = (None, out, m')
     \<and> map high_frequency_messages out =
          map (\<lambda>i. if 10 \<le> k + i then [''High frequency attacks from '' @ a] else []) [0..<n]"
  using assms(3,4,5)
proof (induction n arbitrary: k m)
  case 0
  then show ?case by simp
next
  case (Suc n)
  obtain emitted m1 where u: "update_stats no_services now (connect_entry a) m = (Inr emitted, m1)"
     and t: "top_ips m1 = \<lparr>bc_data = D @ [(Some a, int (Suc k))], bc_maxsize = M\<rparr>"
     and al: "alerted_ips m1 = (if 10 \<le> k \<and> \<not> bs_contains (alerted_ips m) a then add (alerted_ips m) a else alerted_ips m)"
     and hf: "high_frequency_messages emitted =
          (if 10 \<le> k \<and> \<not> bs_contains (alerted_ips m) a then [''High frequency attacks from '' @ a] else [])"
    using connect_step_tracked[OF assms(1,2) Suc.prems(1), of now] by blast
  have nc: "\<not> bs_contains (alerted_ips m) a" using Suc.prems(2) by (simp add: bs_contains_def)
  have ad: "bs_data (add (alerted_ips m) a) = bs_data (alerted_ips m)"
      "bs_maxsize (add (alerted_ips m) a) = bs_maxsize (alerted_ips m)"
    using Suc.prems(2,3) by (simp_all add: add_def)
  have d1: "bs_data (alerted_ips m1) = bs_data (alerted_ips m)" "bs_maxsize (alerted_ips m1) = bs_maxsize (alerted_ips m)"
    unfolding al using ad by simp_all
  have p1: "a |\<notin>| bs_data (alerted_ips m1)" "\<not> int (fcard (bs_data (alerted_ips m1))) < bs_maxsize (alerted_ips m1)"
    unfolding d1 using Suc.prems(2,3) by simp_all
  have hf': "high_frequency_messages emitted = (if 10 \<le> k then [''High frequency attacks from '' @ a] else [])"
    unfolding hf using nc by simp
  have t': "top_ips m1 = \<lparr>bc_data = D @ (if Suc k = 0 then [] else [(Some a, int (Suc k))]), bc_maxsize = M\<rparr>"
    unfolding t by simp
  obtain out m' where f: "feed no_services (replicate n (now, connect_entry a)) m1 = (None, out, m')"
     and fo: "map high_frequency_messages out =
          map (\<lambda>i. if 10 \<le> Suc k + i then [''High frequency attacks from '' @ a] else []) [0..<n]"
    using Suc.IH[OF t' p1] by blast
  have F: "feed no_services (replicate (Suc n) (now, connect_entry a)) m = (None, emitted # out, m')"
    using feed_Cons_ok[OF u f] by simp
  have O: "map high_frequency_messages (emitted # out) =
          map (\<lambda>i. if 10 \<le> k + i then [''High frequency attacks from '' @ a] else []) [0..<Suc n]"
    unfolding map_upt_Suc_shift using hf' fo by simp
  show ?case using F O by (intro exI[of _ "emitted # out"] exI[of _ m']) simp
qed


lemma feed_append:
  "feed svc xs m = (None, out1, m1) \<Longrightarrow> feed svc ys m1 = (r, out2, m2) \<Longrightarrow>
   feed svc (xs @ ys) m = (r, out1 @ out2, m2)"
proof (induction xs arbitrary: m out1)
  case Nil
  then show ?case by simp
next
  case (Cons x xs)
  obtain now e where x: "x = (now, e)" by (cases x)
  obtain res m' where u: "update_stats svc now e m = (res, m')" by (cases "update_stats svc now e m")
  show ?case
  proof (cases res)
    case (Inl err)
    then show ?thesis using Cons.prems(1) x u by simp
  next
    case (Inr emitted)
    obtain r' out' m'' where f: "feed svc xs m' = (r', out', m'')" by (cases "feed svc xs m'") auto
    have "r' = None" "out1 = emitted # out'" "m'' = m1"
      using Cons.prems(1) x u Inr f by simp_all
    then have "feed svc (xs @ ys) m' = (r, out' @ out2, m2)"
      using Cons.IH[of m' out'] f Cons.prems(2) by simp
    then show ?thesis using x u Inr \<open>out1 = emitted # out'\<close> by simp
  qed
qed

lemma fcard_fset_of_list_distinct: "distinct xs \<Longrightarrow> fcard (fset_of_list xs) = length xs"
  by (simp add: fcard.rep_eq fset_of_list.rep_eq distinct_card)

lemma concat_single_index:
  "concat (map (\<lambda>i. if i = j then [x] else []) [0..<n]) = (if j < n then [x] else [])"
  by (induction n) auto

lemma concat_from_index:
  "concat (map (\<lambda>i. if j \<le> i then [x] else []) [0..<n]) = replicate (n - j) x"
proof (induction n)
  case 0
  then show ?case by simp
next
  case (Suc n)
  show ?case
  proof (cases "j \<le> n")
    case True
    then have "Suc n - j = Suc (n - j)" by simp
    then show ?thesis using Suc True by (simp add: replicate_append_same)
  next
    case False
    then show ?thesis using Suc by simp
  qed
qed

lemma connections_fill_alerted_set:
  assumes "distinct (done @ as)" "int (length (done @ as)) \<le> M" "length (done @ as) \<le> 10000"
    "top_ips m = \<lparr>bc_data = map (\<lambda>a. (Some a, 11)) done, bc_maxsize = M\<rparr>"
    "alerted_ips m = \<lparr>bs_data = fset_of_list done, bs_maxsize = 10000, bs_overflow_count = 0\<rparr>"
  shows "\<exists>out m'. feed no_services (connect_bursts now 11 as) m = (None, out, m')
     \<and> top_ips m' = \<lparr>bc_data = map (\<lambda>a. (Some a, 11)) (done @ as), bc_maxsize = M\<rparr>
     \<and> alerted_ips m' = \<lparr>bs_data = fset_of_list (done @ as), bs_maxsize = 10000, bs_overflow_count = 0\<rparr>
     \<and> concat (map high_frequency_messages out) = map (\<lambda>a. ''High frequency attacks from '' @ a) as"
  using assms
proof (induction as arbitrary: "done" m)
  case Nil
  then show ?case by (simp add: connect_bursts_def)
next
  case (Cons a as)
  let ?D = "map (\<lambda>a. (Some a, 11::int)) done"
  let ?A = "\<lparr>bs_data = fset_of_list done, bs_maxsize = 10000, bs_overflow_count = 0::int\<rparr>"
  have dd: "distinct done" and an: "a \<notin> set done" using Cons.prems(1) by simp_all
  have p1: "Some a \<notin> set (dict_keys ?D)" using an by (auto simp: dict_keys_def)
  have p2: "int (length ?D) < M" using Cons.prems(2) by simp
  have p3: "a |\<notin>| bs_data ?A" using an by (simp add: fset_of_list.rep_eq)
  have p4: "int (fcard (bs_data ?A)) < bs_maxsize ?A"
    using Cons.prems(3) by (simp add: fcard_fset_of_list_distinct[OF dd])
  have p5: "top_ips m = \<lparr>bc_data = ?D @ (if (0::nat) = 0 then [] else [(Some a, int 0)]), bc_maxsize = M\<rparr>"
    using Cons.prems(4) by simp
  have p6: "alerted_ips m = (if 11 \<le> (0::nat) then ?A\<lparr>bs_data := finsert a (bs_data ?A)\<rparr> else ?A)"
    using Cons.prems(5) by simp
  obtain out1 m1 where f1: "feed no_services (replicate 11 (now, connect_entry a)) m = (None, out1, m1)"
     and t1: "top_ips m1 = \<lparr>bc_data = ?D @ (if 0 + 11 = (0::nat) then [] else [(Some a, int (0 + 11))]), bc_maxsize = M\<rparr>"
     and a1: "alerted_ips m1 = (if 11 \<le> 0 + (11::nat) then ?A\<lparr>bs_data := finsert a (bs_data ?A)\<rparr> else ?A)"
     and o1: "map high_frequency_messages out1 =
          map (\<lambda>i. if 0 + i = 10 then [''High frequency attacks from '' @ a] else []) [0..<11]"
    using burst_room[OF p1 p2 p3 p4 p5 p6, of 11 now] by blast
  have t1': "top_ips m1 = \<lparr>bc_data = map (\<lambda>a. (Some a, 11)) (done @ [a]), bc_maxsize = M\<rparr>"
    using t1 by simp
  have a1': "alerted_ips m1 = \<lparr>bs_data = fset_of_list (done @ [a]), bs_maxsize = 10000, bs_overflow_count = 0\<rparr>"
    using a1 by simp
  have c1: "concat (map high_frequency_messages out1) = [''High frequency attacks from '' @ a]"
    unfolding o1 using concat_single_index[of 10 "''High frequency attacks from '' @ a" 11] by simp
  have q1: "distinct ((done @ [a]) @ as)" using Cons.prems(1) by simp
  have q2: "int (length ((done @ [a]) @ as)) \<le> M" using Cons.prems(2) by simp
  have q3: "length ((done @ [a]) @ as) \<le> 10000" using Cons.prems(3) by simp
  obtain out2 m2 where f2: "feed no_services (connect_bursts now 11 as) m1 = (None, out2, m2)"
     and t2: "top_ips m2 = \<lparr>bc_data = map (\<lambda>a. (Some a, 11)) ((done @ [a]) @ as), bc_maxsize = M\<rparr>"
     and a2: "alerted_ips m2 = \<lparr>bs_data = fset_of_list ((done @ [a]) @ as), bs_maxsize = 10000, bs_overflow_count = 0\<rparr>"
     and o2: "concat (map high_frequency_messages out2) = map (\<lambda>a. ''High frequency attacks from '' @ a) as"
    using Cons.IH[OF q1 q2 q3 t1' a1'] by blast
  have F: "feed no_services (connect_bursts now 11 (a # as)) m = (None, out1 @ out2, m2)"
    using feed_append[OF f1 f2] by (simp add: connect_bursts_def)
  show ?case using F t2 a2 c1 o2
    by (intro exI[of _ "out1 @ out2"] exI[of _ m2]) simp
qed


lemma connections_after_alerted_set_full:
  assumes "distinct as" "length as = 10000" "b \<notin> set as"
    "top_ips m = \<lparr>bc_data = map (\<lambda>a. (Some a, 11)) as, bc_maxsize = 10000\<rparr>"
    "alerted_ips m = \<lparr>bs_data = fset_of_list as, bs_maxsize = 10000, bs_overflow_count = 0\<rparr>"
  shows "\<exists>out m'. feed no_services (replicate 13 (now, connect_entry b)) m = (None, out, m')
     \<and> concat (map high_frequency_messages out) =
         [''High frequency attacks from '' @ b, ''High frequency attacks from '' @ b]"
proof -
  let ?T = "top_ips m"
  let ?T1 = "snd (increment ?T (Some b))"
  have wd: "distinct (dict_keys (bc_data ?T))"
    unfolding assms(4) using assms(1) by (simp add: dict_keys_def comp_def distinct_map inj_on_def)
  have wl: "bc_len ?T = bc_maxsize ?T" unfolding assms(4) using assms(2) by (simp add: bc_len_def)
  have wf: "Some b \<notin> set (dict_keys (bc_data ?T))"
    unfolding assms(4) using assms(3) by (auto simp: dict_keys_def)
  have wc: "\<forall>kv\<in>set (bc_data ?T). 2 \<le> snd kv" unfolding assms(4) by auto
  have nb: "Some b \<notin> set (dict_keys (bc_data ?T1))"
    using increment_fresh_key_evicted[OF wd wl wf wc] by simp
  have ms: "bc_maxsize ?T1 = 10000" unfolding bc_maxsize_increment assms(4) by simp
  have "bc_len ?T1 = bc_maxsize ?T + 1 - max 1 (bc_maxsize ?T div 10)"
    using wd wf wl by (rule increment_overflow_size)
  then have ln: "int (length (bc_data ?T1)) < 10000"
    unfolding assms(4) by (simp add: bc_len_def)
  have g0: "bc_get ?T1 (Some b) = 0" using nb by (simp add: bc_get_def dict_get_fresh)
  obtain emitted m1 where u: "update_stats no_services now (connect_entry b) m = (Inr emitted, m1)"
     and t: "top_ips m1 = ?T1"
     and al: "alerted_ips m1 =
         (if 10 < bc_get ?T1 (Some b) \<and> \<not> bs_contains (alerted_ips m) b
          then add (alerted_ips m) b else alerted_ips m)"
     and hf: "high_frequency_messages emitted =
         (if 10 < bc_get ?T1 (Some b) \<and> \<not> bs_contains (alerted_ips m) b
          then [''High frequency attacks from '' @ b] else [])"
    using update_stats_connect[OF connect_entry_facts(1)[of b] connect_entry_facts(2)[of b]
        connect_entry_facts(3)[of b], where now=now and m=m] by blast
  have al1: "alerted_ips m1 = \<lparr>bs_data = fset_of_list as, bs_maxsize = 10000, bs_overflow_count = 0\<rparr>"
    unfolding al g0 using assms(5) by simp
  have hf1: "high_frequency_messages emitted = []" unfolding hf g0 by simp
  have q3: "top_ips m1 = \<lparr>bc_data = bc_data ?T1 @ (if (0::nat) = 0 then [] else [(Some b, int 0)]), bc_maxsize = 10000\<rparr>"
    unfolding t using ms by simp
  have q4: "b |\<notin>| bs_data (alerted_ips m1)" unfolding al1 using assms(3) by (simp add: fset_of_list.rep_eq)
  have q5: "\<not> int (fcard (bs_data (alerted_ips m1))) < bs_maxsize (alerted_ips m1)"
    unfolding al1 using assms(2) by (simp add: fcard_fset_of_list_distinct[OF assms(1)])
  obtain out m' where f: "feed no_services (replicate 12 (now, connect_entry b)) m1 = (None, out, m')"
     and o: "map high_frequency_messages out =
          map (\<lambda>i. if 10 \<le> 0 + i then [''High frequency attacks from '' @ b] else []) [0..<12]"
    using burst_full[OF nb ln q3 q4 q5, of 12 now] by blast
  have c: "concat (map high_frequency_messages out) =
         [''High frequency attacks from '' @ b, ''High frequency attacks from '' @ b]"
    unfolding o using concat_from_index[of 10 "''High frequency attacks from '' @ b" 12]
    by (simp add: numeral_2_eq_2)
  have r: "replicate 13 (now, connect_entry b) = (now, connect_entry b) # replicate 12 (now, connect_entry b)"
    by (simp add: eval_nat_numeral)
  have F: "feed no_services (replicate 13 (now, connect_entry b)) m = (None, emitted # out, m')"
    unfolding r using feed_Cons_ok[OF u f] .
  show ?thesis using F c hf1 by (intro exI[of _ "emitted # out"] exI[of _ m']) simp
qed

lemma alert_repeats_when_alerted_set_full:
  assumes "distinct as" "length as = 10000" "b \<notin> set as"
  shows "fst (feed no_services (connect_bursts now 11 as @ replicate 13 (now, connect_entry b))
            (CowrieMonitor_init default_cfg)) = None \<and>
     concat (map high_frequency_messages
       (fst (snd (feed no_services (connect_bursts now 11 as @ replicate 13 (now, connect_entry b))
            (CowrieMonitor_init default_cfg)))))
     = map (\<lambda>a. ''High frequency attacks from '' @ a) as
       @ [''High frequency attacks from '' @ b, ''High frequency attacks from '' @ b]"
proof -
  let ?m0 = "CowrieMonitor_init default_cfg"
  have i1: "distinct ([] @ as)" "int (length ([] @ as)) \<le> 10000" "length ([] @ as) \<le> 10000"
    using assms(1,2) by simp_all
  have i4: "top_ips ?m0 = \<lparr>bc_data = map (\<lambda>a. (Some a, 11)) [], bc_maxsize = 10000\<rparr>"
    by (simp add: CowrieMonitor_init_def BoundedCounter_init_def default_cfg_def)
  have i5: "alerted_ips ?m0 = \<lparr>bs_data = fset_of_list [], bs_maxsize = 10000, bs_overflow_count = 0\<rparr>"
    by (simp add: CowrieMonitor_init_def BoundedSet_init_def)
  obtain out1 m1 where f1: "feed no_services (connect_bursts now 11 as) ?m0 = (None, out1, m1)"
     and t1: "top_ips m1 = \<lparr>bc_data = map (\<lambda>a. (Some a, 11)) ([] @ as), bc_maxsize = 10000\<rparr>"
     and a1: "alerted_ips m1 = \<lparr>bs_data = fset_of_list ([] @ as), bs_maxsize = 10000, bs_overflow_count = 0\<rparr>"
     and o1: "concat (map high_frequency_messages out1) = map (\<lambda>a. ''High frequency attacks from '' @ a) as"
    using connections_fill_alerted_set[OF i1 i4 i5, of now] by blast
  have t1': "top_ips m1 = \<lparr>bc_data = map (\<lambda>a. (Some a, 11)) as, bc_maxsize = 10000\<rparr>" using t1 by simp
  have a1': "alerted_ips m1 = \<lparr>bs_data = fset_of_list as, bs_maxsize = 10000, bs_overflow_count = 0\<rparr>" using a1 by simp
  obtain out2 m2 where f2: "feed no_services (replicate 13 (now, connect_entry b)) m1 = (None, out2, m2)"
     and o2: "concat (map high_frequency_messages out2) =
         [''High frequency attacks from '' @ b, ''High frequency attacks from '' @ b]"
    using connections_after_alerted_set_full[OF assms t1' a1', of now] by blast
  have "feed no_services (connect_bursts now 11 as @ replicate 13 (now, connect_entry b)) ?m0
      = (None, out1 @ out2, m2)"
    using f1 f2 by (rule feed_append)
  then show ?thesis using o1 o2 by simp
qed


subsection \<open>Distinct addresses\<close>

lemma digit_inj: "d < 10 \<Longrightarrow> d' < 10 \<Longrightarrow> digit d = digit d' \<Longrightarrow> d = d'"
proof -
  assume a: "d < 10" "d' < 10" "digit d = digit d'"
  from a(3) have "(of_char (char_of (48 + d)) :: nat) = of_char (char_of (48 + d'))"
    by (simp add: digit_def)
  then have "(48 + d) mod 256 = (48 + d') mod 256" by (simp only: of_char_of)
  then show ?thesis using a(1,2) by simp
qed

lemma digit_not_dot: "d < 10 \<Longrightarrow> digit d \<noteq> CHR ''.''"
proof
  assume a: "d < 10" "digit d = CHR ''.''"
  then have "(of_char (char_of (48 + d)) :: nat) = of_char (CHR ''.'')" by (simp add: digit_def)
  then have "(48 + d) mod 256 = 46" by (simp only: of_char_of) simp
  then show False using a(1) by simp
qed

lemma dec_nonempty: "dec n \<noteq> []"
  by (subst dec.simps) simp

lemma dec_no_dot: "CHR ''.'' \<notin> set (dec n)"
proof (induction n rule: dec.induct)
  case (1 n)
  show ?case
  proof (cases "n < 10")
    case True
    then show ?thesis using digit_not_dot[of n] by (subst dec.simps) auto
  next
    case False
    have "n mod 10 < 10" by simp
    then have "digit (n mod 10) \<noteq> CHR ''.''" by (rule digit_not_dot)
    then show ?thesis using False 1 by (subst dec.simps) auto
  qed
qed

lemma dec_inj: "dec n = dec m \<Longrightarrow> n = m"
proof (induction n arbitrary: m rule: dec.induct)
  case (1 n)
  show ?case
  proof (cases "n < 10")
    case True
    then have dn: "dec n = [digit n]" by (subst dec.simps) simp
    have "m < 10"
    proof (rule ccontr)
      assume "\<not> m < 10"
      then have "dec m = dec (m div 10) @ [digit (m mod 10)]" by (subst dec.simps) simp
      then have "dec (m div 10) = []" using 1(2) dn by simp
      then show False using dec_nonempty by simp
    qed
    then have "dec m = [digit m]" by (subst dec.simps) simp
    then show ?thesis using 1(2) dn True \<open>m < 10\<close> digit_inj by simp
  next
    case False
    then have dn: "dec n = dec (n div 10) @ [digit (n mod 10)]" by (subst dec.simps) simp
    have "\<not> m < 10"
    proof
      assume "m < 10"
      then have "dec m = [digit m]" by (subst dec.simps) simp
      then have "dec (n div 10) = []" using 1(2) dn by simp
      then show False using dec_nonempty by simp
    qed
    then have dm: "dec m = dec (m div 10) @ [digit (m mod 10)]" by (subst dec.simps) simp
    have e: "dec (n div 10) = dec (m div 10)" "digit (n mod 10) = digit (m mod 10)"
      using 1(2) dn dm by simp_all
    have "n div 10 = m div 10" using 1(1)[OF False e(1)] .
    moreover have "n mod 10 = m mod 10" using digit_inj[OF _ _ e(2)] by simp
    ultimately show ?thesis by (metis div_mult_mod_eq)
  qed
qed

lemma split_at_dot:
  assumes "CHR ''.'' \<notin> set xs" "CHR ''.'' \<notin> set xs'" "xs @ CHR ''.'' # ys = xs' @ CHR ''.'' # ys'"
  shows "xs = xs' \<and> ys = ys'"
  using assms
proof (induction xs arbitrary: xs')
  case Nil
  then show ?case by (cases xs') auto
next
  case (Cons x xs)
  then show ?case by (cases xs') auto
qed

lemma address_inj: "address n = address m \<Longrightarrow> n = m"
proof -
  assume "address n = address m"
  then have "dec (n div 256) @ CHR ''.'' # dec (n mod 256) = dec (m div 256) @ CHR ''.'' # dec (m mod 256)"
    by (simp add: address_def)
  then have "dec (n div 256) = dec (m div 256) \<and> dec (n mod 256) = dec (m mod 256)"
    using split_at_dot[OF dec_no_dot dec_no_dot] by blast
  then have "n div 256 = m div 256" "n mod 256 = m mod 256" using dec_inj by blast+
  then show ?thesis by (metis div_mult_mod_eq)
qed

lemma many_addresses_facts:
  "distinct many_addresses" "length many_addresses = 10000" "''203.0.113.7'' \<notin> set many_addresses"
proof -
  show "distinct many_addresses"
    unfolding many_addresses_def by (simp add: distinct_map inj_on_def address_inj)
  show "length many_addresses = 10000" by (simp add: many_addresses_def)
  show "''203.0.113.7'' \<notin> set many_addresses"
    by (auto simp: many_addresses_def address_def)
qed


lemma count_list_map_notin: "x \<notin> set xs \<Longrightarrow> count_list xs x = 0"
  by (simp add: count_list_0_iff)

subsection \<open>The repeated alert\<close>

text \<open>
  Claim C3 does not hold of the code.  The addresses already alerted are kept in a
  \<open>BoundedSet\<close> of capacity 10000; once it is full, \<open>add\<close> does not store a further
  address, and the test \<open>ip not in self._alerted_ips\<close> succeeds for it on every record.
  With the default configuration, after 11 connections from each of 10000 distinct
  addresses, 13 connections from one more address emit its high-frequency alert twice
  (on its 12th and 13th record; its first record is evicted from the address counter at
  once, so the count reaches 11 on the 12th).
\<close>

theorem C3_alert_repeats_when_alerted_set_full:
  "count_list
     (concat (map high_frequency_messages
        (fst (snd (feed no_services alert_flood_input (CowrieMonitor_init default_cfg))))))
     ''High frequency attacks from 203.0.113.7'' = 2"
proof -
  define msg where "msg = (\<lambda>a. ''High frequency attacks from '' @ a)"
  have r: "concat (map high_frequency_messages
        (fst (snd (feed no_services alert_flood_input (CowrieMonitor_init default_cfg)))))
     = map msg many_addresses @ [msg ''203.0.113.7'', msg ''203.0.113.7'']"
    unfolding alert_flood_input_def msg_def
    using alert_repeats_when_alerted_set_full[OF many_addresses_facts, of "''t''"] by simp
  have inj: "\<And>a b. msg a = msg b \<Longrightarrow> a = b" by (simp add: msg_def)
  have "msg ''203.0.113.7'' \<notin> set (map msg many_addresses)"
    using many_addresses_facts(3) inj by auto
  then have z: "count_list (map msg many_addresses) (msg ''203.0.113.7'') = 0"
    by (rule count_list_map_notin)
  have c: "count_list (map msg many_addresses @ [msg ''203.0.113.7'', msg ''203.0.113.7''])
          (msg ''203.0.113.7'') = 2"
    unfolding count_list_append z by simp
  have l: "msg ''203.0.113.7'' = ''High frequency attacks from 203.0.113.7''" by (simp add: msg_def)
  show ?thesis unfolding r using c unfolding l .
qed


end
